theory Spec2Isabelle
  imports Main "HOL-Library.Sublist"
begin

section \<open>Python values\<close>

text \<open>
  The builder handles the decoded JSON bodies of the GitHub REST API with Python's dynamic
  operations: subscription, truth value, iteration, comparison with a string. A decoded
  body is a value of \<open>json\<close>; \<open>JObj\<close> lists the items of a dict (keys distinct), \<open>JNull\<close>
  is \<open>None\<close>. Numbers with a fraction are left out: no run, artifact or status field the
  builder reads is one.
\<close>

datatype json =
    JNull
  | JBool bool
  | JInt int
  | JStr string
  | JList "json list"
  | JObj "(string \<times> json) list"

text \<open>The exceptions that the monitored calls can raise.\<close>

datatype error =
    RequestException
  | JSONDecodeError
  | KeyError
  | TypeError
  | IndexError
  | BadZipFile
  | UnicodeDecodeError
  | FileNotFoundError
  | ZlibError
  | IsADirectoryError

text \<open>\<open>if x:\<close> and \<open>not x\<close>: Python's truth value.\<close>

fun truthy :: "json \<Rightarrow> bool" where
  "truthy JNull = False"
| "truthy (JBool b) = b"
| "truthy (JInt n) = (n \<noteq> 0)"
| "truthy (JStr s) = (s \<noteq> [])"
| "truthy (JList xs) = (xs \<noteq> [])"
| "truthy (JObj kvs) = (kvs \<noteq> [])"

text \<open>\<open>x['key']\<close>: a dict without the key raises KeyError, anything but a dict TypeError.\<close>

fun getitem :: "json \<Rightarrow> string \<Rightarrow> error + json" where
  "getitem (JObj kvs) k = (case map_of kvs k of None \<Rightarrow> Inl KeyError | Some v \<Rightarrow> Inr v)"
| "getitem JNull k = Inl TypeError"
| "getitem (JBool b) k = Inl TypeError"
| "getitem (JInt n) k = Inl TypeError"
| "getitem (JStr s) k = Inl TypeError"
| "getitem (JList xs) k = Inl TypeError"

text \<open>\<open>x[0]\<close>: the first element of a list, the first character of a string; a dict
  decoded from JSON has only string keys, so \<open>0\<close> is a missing key.\<close>

fun getitem0 :: "json \<Rightarrow> error + json" where
  "getitem0 (JList xs) = (case xs of [] \<Rightarrow> Inl IndexError | x # _ \<Rightarrow> Inr x)"
| "getitem0 (JStr s) = (case s of [] \<Rightarrow> Inl IndexError | c # _ \<Rightarrow> Inr (JStr [c]))"
| "getitem0 (JObj kvs) = Inl KeyError"
| "getitem0 JNull = Inl TypeError"
| "getitem0 (JBool b) = Inl TypeError"
| "getitem0 (JInt n) = Inl TypeError"

text \<open>\<open>for x in xs\<close>: the elements of a list, the characters of a string, the keys of a
  dict; anything else is not iterable.\<close>

fun iterate :: "json \<Rightarrow> error + json list" where
  "iterate (JList xs) = Inr xs"
| "iterate (JStr s) = Inr (map (\<lambda>c. JStr [c]) s)"
| "iterate (JObj kvs) = Inr (map (\<lambda>kv. JStr (fst kv)) kvs)"
| "iterate JNull = Inl TypeError"
| "iterate (JBool b) = Inl TypeError"
| "iterate (JInt n) = Inl TypeError"

text \<open>\<open>s.endswith(suffix)\<close>.\<close>

definition endswith :: "string \<Rightarrow> string \<Rightarrow> bool" where
  "endswith s suf = suffix suf s"

section \<open>The world outside the builder\<close>

text \<open>
  A zip archive as \<open>zipfile\<close> reads it: the entries of the central directory, in
  order, each with its file name and with what reading its data does. \<open>Whole\<close> data
  reads to the end. \<open>Cut\<close> data yields some bytes (possibly none) and then raises:
  BadZipFile when the checksum does not match, ZlibError when the compressed stream is
  damaged. \<open>Lost\<close> data cannot be opened at all (the local header is missing or names
  another file): opening the entry raises BadZipFile. \<open>NotZip\<close> is a payload with no
  central directory: \<open>zipfile.ZipFile\<close> raises BadZipFile on it. Paths are POSIX
  paths. Of the errors of the operating system, the one modelled is writing to the
  destination directory itself (an entry whose name has no component left); a full disk
  or a file standing where a directory is needed are not.
\<close>

datatype zdata = Whole string | Cut string error | Lost

datatype zmember = ZEntry string zdata

fun filename :: "zmember \<Rightarrow> string" where
  "filename (ZEntry name data) = name"

datatype zipdata = NotZip | Zip "zmember list"

text \<open>
  An HTTP response, by what the builder reads of it: \<open>response.status_code\<close>,
  \<open>response.json()\<close> (\<open>None\<close> when the body is not JSON and the call raises) and
  \<open>response.content\<close>, the body as the archive it encodes.
\<close>

record response =
  status_code :: int
  json_body :: "json option"
  content :: zipdata

text \<open>
  The URLs requested, by their parts: the three f-strings under
  \<open>https://api.github.com/repos/{github_username}/{repo_name}/actions/runs\<close> (the run
  list, \<open>/{run_id}/logs\<close>, \<open>/{run_id}/artifacts\<close>) and the \<open>archive_download_url\<close> an
  artifact carries.
\<close>

datatype endpoint =
    RunsUrl string string
  | LogsUrl string string json
  | ArtifactsUrl string string json
  | Url json

text \<open>
  The lines printed, one constructor per \<open>print\<close> call of the monitored functions. The
  path in \<open>ApkReady\<close> is the first match in \<open>os.walk\<close> order, which is not modelled; the
  constructor stands for the line whatever the path.
\<close>

datatype message =
    Monitoring
  | BuildStatus json json
  | BuildCompleted
  | BuildFailed
  | BuildLogs
  | BuildTimeout
  | LogHeader string
  | LogContent string
  | FailedDownloadLogs
  | FailedGetArtifacts
  | ArtifactNotFound
  | ApkDownloaded
  | ApkReady
  | FailedDownloadApk

datatype event = Get endpoint | Sleep nat | Print message

text \<open>
  The state the builder acts on: the observable events so far, the number of HTTP requests
  sent, the regular files under the current directory (directory components and base name,
  with contents), and the temporary directory with the counter naming its next file.
\<close>

type_synonym path = "string list \<times> string"

record world =
  trace :: "event list"
  nreq :: nat
  files :: "(path \<times> string) list"
  tmpdir :: "(nat \<times> zipdata) list"
  ntmp :: nat

text \<open>
  What the builder cannot control: the answer (a response, or the exception
  \<open>requests.get\<close> raises) to the \<open>n\<close>-th request when it asks for a given URL, and
  which byte strings decode as UTF-8. Every request carries \<open>self.headers\<close>; what the
  service makes of them is part of its answer.
\<close>

record env =
  server :: "nat \<Rightarrow> endpoint \<Rightarrow> error + response"
  decode_utf8 :: "string \<Rightarrow> string option"

section \<open>Statements with effects and exceptions\<close>

type_synonym 'a io = "world \<Rightarrow> (error + 'a) \<times> world"

definition return_io :: "'a \<Rightarrow> 'a io" where
  "return_io x = (\<lambda>w. (Inr x, w))"

definition lift_io :: "error + 'a \<Rightarrow> 'a io" where
  "lift_io r = (\<lambda>w. (r, w))"

definition bind_io :: "'a io \<Rightarrow> ('a \<Rightarrow> 'b io) \<Rightarrow> 'b io" where
  "bind_io m f = (\<lambda>w. case m w of (Inl e, w') \<Rightarrow> (Inl e, w') | (Inr x, w') \<Rightarrow> f x w')"

text \<open>\<open>try: body finally: cleanup\<close>: the cleanup runs however the body ends; an exception
  of the cleanup replaces the body's outcome.\<close>

definition try_finally :: "'a io \<Rightarrow> unit io \<Rightarrow> 'a io" where
  "try_finally body cleanup =
     (\<lambda>w. case body w of (r, w') \<Rightarrow>
        (case cleanup w' of (Inl e, w'') \<Rightarrow> (Inl e, w'') | (Inr _, w'') \<Rightarrow> (r, w'')))"

definition emit :: "event \<Rightarrow> unit io" where
  "emit ev = (\<lambda>w. (Inr (), w\<lparr>trace := trace w @ [ev]\<rparr>))"

definition py_print :: "message \<Rightarrow> unit io" where
  "py_print m = emit (Print m)"

definition time_sleep :: "nat \<Rightarrow> unit io" where
  "time_sleep secs = emit (Sleep secs)"

definition requests_get :: "env \<Rightarrow> endpoint \<Rightarrow> response io" where
  "requests_get env url =
     (\<lambda>w. (server env (nreq w) url, w\<lparr>trace := trace w @ [Get url], nreq := nreq w + 1\<rparr>))"

definition response_json :: "response \<Rightarrow> error + json" where
  "response_json r = (case json_body r of None \<Rightarrow> Inl JSONDecodeError | Some j \<Rightarrow> Inr j)"

text \<open>\<open>tempfile.NamedTemporaryFile(delete=False)\<close>, written and closed: a fresh name.\<close>

definition named_temporary_file :: "zipdata \<Rightarrow> nat io" where
  "named_temporary_file bytes =
     (\<lambda>w. (Inr (ntmp w), w\<lparr>tmpdir := (ntmp w, bytes) # tmpdir w, ntmp := ntmp w + 1\<rparr>))"

definition os_unlink :: "nat \<Rightarrow> unit io" where
  "os_unlink name =
     (\<lambda>w. case map_of (tmpdir w) name of
        None \<Rightarrow> (Inl FileNotFoundError, w)
      | Some _ \<Rightarrow> (Inr (), w\<lparr>tmpdir := filter (\<lambda>f. fst f \<noteq> name) (tmpdir w)\<rparr>))"

text \<open>\<open>zipfile.ZipFile(path, 'r')\<close>: the entries of the archive, or BadZipFile.\<close>

definition zipfile_open :: "nat \<Rightarrow> zmember list io" where
  "zipfile_open name =
     (\<lambda>w. case map_of (tmpdir w) name of
        None \<Rightarrow> (Inl FileNotFoundError, w)
      | Some NotZip \<Rightarrow> (Inl BadZipFile, w)
      | Some (Zip members) \<Rightarrow> (Inr members, w))"

text \<open>Writing a file replaces the one at the same path or adds a new one.\<close>

fun write_file :: "path \<Rightarrow> string \<Rightarrow> (path \<times> string) list \<Rightarrow> (path \<times> string) list" where
  "write_file p d [] = [(p, d)]"
| "write_file p d (f # fs) = (if fst f = p then (p, d) # fs else f # write_file p d fs)"

text \<open>\<open>name.split('/')\<close>.\<close>

fun split_slash :: "string \<Rightarrow> string list" where
  "split_slash [] = [[]]"
| "split_slash (c # cs) =
     (if c = CHR ''/'' then [] # split_slash cs
      else (case split_slash cs of [] \<Rightarrow> [[c]] | p # ps \<Rightarrow> (c # p) # ps))"

text \<open>
  Where \<open>zipfile\<close> writes an entry, below the destination: the components of its name
  without the empty ones, \<open>.\<close> and \<open>..\<close>. An entry whose name ends in a slash is a
  directory.
\<close>

definition target_of :: "string \<Rightarrow> string list" where
  "target_of name = filter (\<lambda>x. x \<noteq> [] \<and> x \<noteq> ''.'' \<and> x \<noteq> ''..'') (split_slash name)"

definition is_dir :: "string \<Rightarrow> bool" where
  "is_dir name = endswith name ''/''"

text \<open>The file an entry of that name is written to, if it is written to one.\<close>

definition path_of :: "string \<Rightarrow> path list" where
  "path_of name =
     (if is_dir name then []
      else (case target_of name of [] \<Rightarrow> [] | p # ps \<Rightarrow> [(butlast (p # ps), last (p # ps))]))"

text \<open>\<open>zip_file.getinfo(name)\<close>: entries are looked up by name, and of several entries
  with one name the last is the one found.\<close>

definition getinfo :: "zmember list \<Rightarrow> string \<Rightarrow> zmember option" where
  "getinfo ms name =
     (case filter (\<lambda>m. filename m = name) (rev ms) of [] \<Rightarrow> None | m # _ \<Rightarrow> Some m)"

text \<open>\<open>zip_file.open(name).read()\<close>.\<close>

definition zip_read :: "zmember list \<Rightarrow> string \<Rightarrow> error + string" where
  "zip_read ms name =
     (case getinfo ms name of
        None \<Rightarrow> Inl KeyError
      | Some (ZEntry n data) \<Rightarrow>
          (case data of
             Whole bytes \<Rightarrow> Inr bytes
           | Cut bytes e \<Rightarrow> Inl e
           | Lost \<Rightarrow> Inl BadZipFile))"

text \<open>
  Extracting one entry: a directory entry writes no file; otherwise the entry is opened,
  then its target is opened for writing (created or truncated), then the data is copied
  until it ends or raises. What was copied before the exception stays in the target.
\<close>

fun extract_member ::
  "zmember \<Rightarrow> (path \<times> string) list \<Rightarrow> error option \<times> (path \<times> string) list" where
  "extract_member (ZEntry name data) fs =
     (if is_dir name then (None, fs)
      else
        (case data of
           Lost \<Rightarrow> (Some BadZipFile, fs)
         | Whole bytes \<Rightarrow>
            (case target_of name of
               [] \<Rightarrow> (Some IsADirectoryError, fs)
             | p # ps \<Rightarrow> (None, write_file (butlast (p # ps), last (p # ps)) bytes fs))
         | Cut bytes e \<Rightarrow>
            (case target_of name of
               [] \<Rightarrow> (Some IsADirectoryError, fs)
             | p # ps \<Rightarrow> (Some e, write_file (butlast (p # ps), last (p # ps)) bytes fs))))"

text \<open>
  \<open>zip_file.extractall('.')\<close> on the files: name after name of \<open>namelist()\<close>, each
  looked up and extracted; the first exception ends it, and what was written until then
  stays. The result is the exception, if any, and the files left.
\<close>

fun extract_names ::
  "zmember list \<Rightarrow> string list \<Rightarrow> (path \<times> string) list
     \<Rightarrow> error option \<times> (path \<times> string) list" where
  "extract_names ms [] fs = (None, fs)"
| "extract_names ms (name # names) fs =
     (case getinfo ms name of
        None \<Rightarrow> (Some KeyError, fs)
      | Some m \<Rightarrow>
          (case extract_member m fs of
             (None, fs') \<Rightarrow> extract_names ms names fs'
           | (Some e, fs') \<Rightarrow> (Some e, fs')))"

definition extracted ::
  "zmember list \<Rightarrow> (path \<times> string) list \<Rightarrow> error option \<times> (path \<times> string) list" where
  "extracted ms fs = extract_names ms (map filename ms) fs"

definition extractall :: "zmember list \<Rightarrow> unit io" where
  "extractall ms =
     (\<lambda>w. case extracted ms (files w) of
        (None, fs) \<Rightarrow> (Inr (), w\<lparr>files := fs\<rparr>)
      | (Some e, fs) \<Rightarrow> (Inl e, w\<lparr>files := fs\<rparr>))"

text \<open>The double loop over \<open>os.walk('.')\<close>: is there a regular file whose base name ends
  in \<open>.apk\<close>?\<close>

definition walk_finds_apk :: "bool io" where
  "walk_finds_apk = (\<lambda>w. (Inr (list_ex (\<lambda>f. endswith (snd (fst f)) ''.apk'') (files w)), w))"

section \<open>The Remote Build Service client\<close>

text \<open>
  The methods of \<open>GitHubAPKBuilder\<close> that the monitor uses. \<open>user\<close> is
  \<open>self.config['github_username']\<close>, which \<open>setup_credentials\<close> has stored before
  \<open>run\<close> reaches \<open>monitor_build\<close>.
\<close>

definition get_workflow_runs :: "env \<Rightarrow> string \<Rightarrow> string \<Rightarrow> json io" where
  "get_workflow_runs env user repo_name =
     bind_io (requests_get env (RunsUrl user repo_name)) (\<lambda>response.
       if status_code response = 200
       then bind_io (lift_io (response_json response)) (\<lambda>body.
              lift_io (getitem body ''workflow_runs''))
       else return_io (JList []))"

text \<open>The loop over \<open>zip_file.namelist()\<close> in \<open>get_workflow_logs\<close>: every name that
  ends in \<open>.txt\<close> is opened by name, read, decoded and printed.\<close>

fun show_logs :: "env \<Rightarrow> zmember list \<Rightarrow> string list \<Rightarrow> unit io" where
  "show_logs env zip_file [] = return_io ()"
| "show_logs env zip_file (file_name # names) =
     (if endswith file_name ''.txt''
      then bind_io (lift_io (case zip_read zip_file file_name of
                               Inl e \<Rightarrow> Inl e
                             | Inr bytes \<Rightarrow> (case decode_utf8 env bytes of
                                               None \<Rightarrow> Inl UnicodeDecodeError
                                             | Some text \<Rightarrow> Inr text))) (\<lambda>content.
           bind_io (py_print (LogHeader file_name)) (\<lambda>_.
           bind_io (py_print (LogContent content)) (\<lambda>_.
           show_logs env zip_file names)))
      else show_logs env zip_file names)"

definition get_workflow_logs :: "env \<Rightarrow> string \<Rightarrow> string \<Rightarrow> json \<Rightarrow> unit io" where
  "get_workflow_logs env user repo_name run_id =
     bind_io (requests_get env (LogsUrl user repo_name run_id)) (\<lambda>response.
       if status_code response = 200
       then bind_io (named_temporary_file (content response)) (\<lambda>temp_file_path.
              try_finally
                (bind_io (zipfile_open temp_file_path) (\<lambda>zip_file.
                   show_logs env zip_file (map filename zip_file)))
                (os_unlink temp_file_path))
       else py_print FailedDownloadLogs)"

text \<open>The loop of \<open>download_apk\<close> over the artifacts: the first one named \<open>app-debug\<close>,
  or \<open>None\<close>.\<close>

fun find_artifact :: "json list \<Rightarrow> error + json" where
  "find_artifact [] = Inr JNull"
| "find_artifact (artifact # rest) =
     (case getitem artifact ''name'' of
        Inl e \<Rightarrow> Inl e
      | Inr name \<Rightarrow> if name = JStr ''app-debug'' then Inr artifact else find_artifact rest)"

definition download_apk :: "env \<Rightarrow> string \<Rightarrow> string \<Rightarrow> json \<Rightarrow> bool io" where
  "download_apk env user repo_name run_id =
     bind_io (requests_get env (ArtifactsUrl user repo_name run_id)) (\<lambda>response.
       if status_code response \<noteq> 200
       then bind_io (py_print FailedGetArtifacts) (\<lambda>_. return_io False)
       else
         bind_io (lift_io (response_json response)) (\<lambda>body.
         bind_io (lift_io (getitem body ''artifacts'')) (\<lambda>artifacts.
         bind_io (lift_io (iterate artifacts)) (\<lambda>items.
         bind_io (lift_io (find_artifact items)) (\<lambda>apk_artifact.
           if \<not> truthy apk_artifact
           then bind_io (py_print ArtifactNotFound) (\<lambda>_. return_io False)
           else
             bind_io (lift_io (getitem apk_artifact ''archive_download_url'')) (\<lambda>download_url.
             bind_io (requests_get env (Url download_url)) (\<lambda>response.
               if status_code response = 200
               then bind_io (named_temporary_file (content response)) (\<lambda>temp_file_path.
                      try_finally
                        (bind_io (zipfile_open temp_file_path) (\<lambda>zip_file.
                         bind_io (extractall zip_file) (\<lambda>_.
                         bind_io (py_print ApkDownloaded) (\<lambda>_.
                         bind_io walk_finds_apk (\<lambda>found.
                           if found
                           then bind_io (py_print ApkReady) (\<lambda>_. return_io True)
                           else return_io False)))))
                        (os_unlink temp_file_path))
               else bind_io (py_print FailedDownloadApk) (\<lambda>_. return_io False))))))))"

section \<open>The build monitor\<close>

text \<open>
  One pass through the body of the \<open>while\<close> loop of \<open>monitor_build\<close>, up to the point
  where it either returns (\<open>Return\<close>) or falls through to \<open>time.sleep(10)\<close> (\<open>Continue\<close>).
\<close>

datatype verdict = Continue | Return bool

definition poll_cycle :: "env \<Rightarrow> string \<Rightarrow> string \<Rightarrow> verdict io" where
  "poll_cycle env user repo_name =
     bind_io (get_workflow_runs env user repo_name) (\<lambda>runs.
       if truthy runs
       then
         bind_io (lift_io (getitem0 runs)) (\<lambda>latest_run.
         bind_io (lift_io (getitem latest_run ''status'')) (\<lambda>status.
         bind_io (lift_io (getitem latest_run ''conclusion'')) (\<lambda>conclusion.
         bind_io (lift_io (getitem latest_run ''id'')) (\<lambda>run_id.
         bind_io (py_print (BuildStatus status conclusion)) (\<lambda>_.
           if status = JStr ''completed''
           then
             if conclusion = JStr ''success''
             then
               bind_io (py_print BuildCompleted) (\<lambda>_.
               bind_io (download_apk env user repo_name run_id) (\<lambda>_.
               return_io (Return True)))
             else
               bind_io (py_print BuildFailed) (\<lambda>_.
               bind_io (py_print BuildLogs) (\<lambda>_.
               bind_io (get_workflow_logs env user repo_name run_id) (\<lambda>_.
               return_io (Return False))))
           else return_io Continue)))))
       else return_io Continue)"

text \<open>
  The \<open>while attempt < max_attempts\<close> loop with its counter: a cycle that falls through
  sleeps 10 seconds and counts one attempt; when the attempts are used up, the timeout
  line is printed and the result is \<open>False\<close>.
\<close>

definition max_attempts :: nat where
  "max_attempts = 60"

function monitor_loop :: "env \<Rightarrow> string \<Rightarrow> string \<Rightarrow> nat \<Rightarrow> bool io" where
  "monitor_loop env user repo_name attempt w =
     (if attempt < max_attempts
      then
        (case poll_cycle env user repo_name w of
           (Inl e, w1) \<Rightarrow> (Inl e, w1)
         | (Inr (Return b), w1) \<Rightarrow> (Inr b, w1)
         | (Inr Continue, w1) \<Rightarrow>
             monitor_loop env user repo_name (attempt + 1) (snd (time_sleep 10 w1)))
      else bind_io (py_print BuildTimeout) (\<lambda>_. return_io False) w)"
  by pat_completeness auto
termination
  by (relation "measure (\<lambda>(env, user, repo_name, attempt, w). max_attempts - attempt)") auto

declare monitor_loop.simps [simp del]

definition monitor_build :: "env \<Rightarrow> string \<Rightarrow> string \<Rightarrow> bool io" where
  "monitor_build env user repo_name =
     bind_io (py_print Monitoring) (\<lambda>_. monitor_loop env user repo_name 0)"

section \<open>Reading a run of the monitor\<close>

text \<open>
  What \<open>get_workflow_runs\<close> makes of the server's answer to its request: the exception
  of the request or of the decoding, the list under \<open>workflow_runs\<close>, or the empty list
  for any status other than 200.
\<close>

definition runs_of :: "error + response \<Rightarrow> error + json" where
  "runs_of answer =
     (case answer of
        Inl e \<Rightarrow> Inl e
      | Inr response \<Rightarrow>
          if status_code response = 200
          then (case response_json response of
                  Inl e \<Rightarrow> Inl e
                | Inr body \<Rightarrow> getitem body ''workflow_runs'')
          else Inr (JList []))"

text \<open>
  What a cycle of \<open>monitor_build\<close> has in hand when it reaches its \<open>print\<close> of the build
  status: nothing to look at (the run list is falsy), the status, conclusion and id of
  the first-listed run, or the exception raised on the way.
\<close>

datatype observation = Raised error | NoRuns | Seen json json json

definition observe :: "error + response \<Rightarrow> observation" where
  "observe answer =
     (case runs_of answer of
        Inl e \<Rightarrow> Raised e
      | Inr runs \<Rightarrow>
          if truthy runs
          then (case getitem0 runs of
                  Inl e \<Rightarrow> Raised e
                | Inr latest_run \<Rightarrow>
                   (case getitem latest_run ''status'' of
                      Inl e \<Rightarrow> Raised e
                    | Inr status \<Rightarrow>
                       (case getitem latest_run ''conclusion'' of
                          Inl e \<Rightarrow> Raised e
                        | Inr conclusion \<Rightarrow>
                           (case getitem latest_run ''id'' of
                              Inl e \<Rightarrow> Raised e
                            | Inr run_id \<Rightarrow> Seen status conclusion run_id))))
          else NoRuns)"

text \<open>A cycle that neither raises nor sees a completed run: the monitor stays in Polling.\<close>

definition pending :: "observation \<Rightarrow> bool" where
  "pending obs =
     (case obs of
        Raised e \<Rightarrow> False
      | NoRuns \<Rightarrow> True
      | Seen status conclusion run_id \<Rightarrow> status \<noteq> JStr ''completed'')"

text \<open>The world after more events and \<open>k\<close> more requests, everything else as it was.\<close>

definition advance :: "world \<Rightarrow> event list \<Rightarrow> nat \<Rightarrow> world" where
  "advance w evs k = w\<lparr>trace := trace w @ evs, nreq := nreq w + k\<rparr>"

text \<open>The events of one such cycle, and of \<open>k\<close> of them in a row when the first is
  answered as request number \<open>n\<close>.\<close>

definition status_line :: "observation \<Rightarrow> event list" where
  "status_line obs =
     (case obs of
        Seen status conclusion run_id \<Rightarrow> [Print (BuildStatus status conclusion)]
      | Raised e \<Rightarrow> []
      | NoRuns \<Rightarrow> [])"

definition cycle_events :: "endpoint \<Rightarrow> observation \<Rightarrow> event list" where
  "cycle_events url obs = Get url # status_line obs @ [Sleep 10]"

fun waited :: "env \<Rightarrow> endpoint \<Rightarrow> nat \<Rightarrow> nat \<Rightarrow> event list" where
  "waited env url n 0 = []"
| "waited env url n (Suc k) =
     cycle_events url (observe (server env n url)) @ waited env url (Suc n) k"

text \<open>Views of a trace: the events added between two worlds, the URLs requested, the
  run ids whose artifacts and whose logs were asked for, the sleeps, the lines printed.\<close>

definition new_events :: "world \<Rightarrow> world \<Rightarrow> event list" where
  "new_events w w' = drop (length (trace w)) (trace w')"

definition requests :: "event list \<Rightarrow> endpoint list" where
  "requests evs = concat (map (\<lambda>ev. case ev of Get url \<Rightarrow> [url] | Sleep n \<Rightarrow> [] | Print m \<Rightarrow> []) evs)"

definition artifact_requests :: "event list \<Rightarrow> json list" where
  "artifact_requests evs =
     concat (map (\<lambda>url. case url of ArtifactsUrl user repo run_id \<Rightarrow> [run_id]
                        | RunsUrl user repo \<Rightarrow> [] | LogsUrl user repo run_id \<Rightarrow> [] | Url u \<Rightarrow> [])
                 (requests evs))"

definition log_requests :: "event list \<Rightarrow> json list" where
  "log_requests evs =
     concat (map (\<lambda>url. case url of LogsUrl user repo run_id \<Rightarrow> [run_id]
                        | RunsUrl user repo \<Rightarrow> [] | ArtifactsUrl user repo run_id \<Rightarrow> [] | Url u \<Rightarrow> [])
                 (requests evs))"

definition sleeps :: "event list \<Rightarrow> nat list" where
  "sleeps evs = concat (map (\<lambda>ev. case ev of Sleep n \<Rightarrow> [n] | Get url \<Rightarrow> [] | Print m \<Rightarrow> []) evs)"

definition lines :: "event list \<Rightarrow> message list" where
  "lines evs = concat (map (\<lambda>ev. case ev of Print m \<Rightarrow> [m] | Get url \<Rightarrow> [] | Sleep n \<Rightarrow> []) evs)"

text \<open>
  What the lines printed by a run of \<open>monitor_build\<close> say about its result: with \<open>True\<close>
  the line of a completed build and neither of the other two, with \<open>False\<close> exactly one
  of the lines of a failed build and of a timeout.
\<close>

definition told_apart :: "error + bool \<Rightarrow> message list \<Rightarrow> bool" where
  "told_apart r ls \<longleftrightarrow>
     (r = Inr True \<longrightarrow>
        BuildCompleted \<in> set ls \<and> BuildFailed \<notin> set ls \<and> BuildTimeout \<notin> set ls) \<and>
     (r = Inr False \<longrightarrow>
        BuildCompleted \<notin> set ls \<and> (BuildFailed \<in> set ls) \<noteq> (BuildTimeout \<in> set ls))"

text \<open>A statement whose events, whatever it returns or raises, satisfy \<open>P\<close>.\<close>

definition emits :: "(event list \<Rightarrow> bool) \<Rightarrow> 'a io \<Rightarrow> bool" where
  "emits P m \<longleftrightarrow> (\<forall>w r w'. m w = (r, w') \<longrightarrow> (\<exists>evs. trace w' = trace w @ evs \<and> P evs))"

text \<open>The events of \<open>download_apk\<close> after its first request, and of
  \<open>get_workflow_logs\<close> after its request.\<close>

fun download_event :: "event \<Rightarrow> bool" where
  "download_event (Get (Url u)) = True"
| "download_event (Print FailedGetArtifacts) = True"
| "download_event (Print ArtifactNotFound) = True"
| "download_event (Print ApkDownloaded) = True"
| "download_event (Print ApkReady) = True"
| "download_event (Print FailedDownloadApk) = True"
| "download_event ev = False"

fun log_event :: "event \<Rightarrow> bool" where
  "log_event (Print (LogHeader n)) = True"
| "log_event (Print (LogContent c)) = True"
| "log_event (Print FailedDownloadLogs) = True"
| "log_event ev = False"

text \<open>The files that the file entries of an archive are written to.\<close>

definition member_paths :: "zmember list \<Rightarrow> path list" where
  "member_paths ms = concat (map (\<lambda>m. path_of (filename m)) ms)"


text \<open>
  The service lets \<open>download_apk\<close>, called in world \<open>w\<close>, get as far as a saved payload:
  the artifact list is served with status 200 and decodes, an artifact named
  \<open>app-debug\<close> is found in it before any entry without a name, it carries a download
  URL, and the request for that URL is answered with status 200 and the payload \<open>z\<close>.
\<close>

definition serves_archive :: "env \<Rightarrow> string \<Rightarrow> string \<Rightarrow> json \<Rightarrow> world \<Rightarrow> zipdata \<Rightarrow> bool" where
  "serves_archive env user repo run_id w z =
     (case server env (nreq w) (ArtifactsUrl user repo run_id) of
        Inl e \<Rightarrow> False
      | Inr listing \<Rightarrow>
          status_code listing = 200 \<and>
          (case response_json listing of
             Inl e \<Rightarrow> False
           | Inr body \<Rightarrow>
              (case getitem body ''artifacts'' of
                 Inl e \<Rightarrow> False
               | Inr artifacts \<Rightarrow>
                  (case iterate artifacts of
                     Inl e \<Rightarrow> False
                   | Inr items \<Rightarrow>
                      (case find_artifact items of
                         Inl e \<Rightarrow> False
                       | Inr apk_artifact \<Rightarrow>
                          truthy apk_artifact \<and>
                          (case getitem apk_artifact ''archive_download_url'' of
                             Inl e \<Rightarrow> False
                           | Inr download_url \<Rightarrow>
                              (case server env (Suc (nreq w)) (Url download_url) of
                                 Inl e \<Rightarrow> False
                               | Inr payload \<Rightarrow>
                                   status_code payload = 200 \<and> content payload = z)))))))"

section \<open>Scenarios\<close>

text \<open>
  Concrete worlds and services on which the properties below are exercised: an empty
  working directory, and a GitHub that answers the run-list requests by a script of the
  request number and every other request with a fixed answer.
\<close>

definition fresh :: world where
  "fresh = \<lparr>trace = [], nreq = 0, files = [], tmpdir = [], ntmp = 0\<rparr>"

definition ok_json :: "json \<Rightarrow> error + response" where
  "ok_json body = Inr \<lparr>status_code = 200, json_body = Some body, content = NotZip\<rparr>"

definition ok_zip :: "zmember list \<Rightarrow> error + response" where
  "ok_zip members = Inr \<lparr>status_code = 200, json_body = None, content = Zip members\<rparr>"

definition http_status :: "int \<Rightarrow> error + response" where
  "http_status code = Inr \<lparr>status_code = code, json_body = None, content = NotZip\<rparr>"

definition run_json :: "int \<Rightarrow> string \<Rightarrow> json \<Rightarrow> json" where
  "run_json run_id status conclusion =
     JObj [(''id'', JInt run_id), (''status'', JStr status), (''conclusion'', conclusion)]"

definition run_list :: "json list \<Rightarrow> error + response" where
  "run_list runs =
     ok_json (JObj [(''total_count'', JInt (int (length runs))), (''workflow_runs'', JList runs)])"

definition artifact_list :: "error + response" where
  "artifact_list =
     ok_json (JObj [(''total_count'', JInt 1),
                    (''artifacts'',
                     JList [JObj [(''id'', JInt 11), (''name'', JStr ''app-debug''),
                                  (''archive_download_url'', JStr ''https://example/zip'')]])])"

definition apk_zip :: "error + response" where
  "apk_zip = ok_zip [ZEntry ''output-metadata.json'' (Whole ''{}''),
                     ZEntry ''app-debug.apk'' (Whole ''PK'')]"

definition log_zip :: "error + response" where
  "log_zip = ok_zip [ZEntry ''build/'' (Whole []),
                     ZEntry ''build/1_Set up job.txt'' (Whole ''ok''),
                     ZEntry ''0_build.txt'' (Whole ''FAILURE: Build failed'')]"

definition service ::
  "(nat \<Rightarrow> error + response) \<Rightarrow> (error + response) \<Rightarrow> (error + response)
     \<Rightarrow> (error + response) \<Rightarrow> env" where
  "service polls logs artifacts download =
     \<lparr>server = (\<lambda>n url. case url of
                   RunsUrl user repo \<Rightarrow> polls n
                 | LogsUrl user repo run_id \<Rightarrow> logs
                 | ArtifactsUrl user repo run_id \<Rightarrow> artifacts
                 | Url u \<Rightarrow> download),
      decode_utf8 = Some\<rparr>"

text \<open>A build that is in progress for the first \<open>n\<close> polls and then completed with the
  given conclusion.\<close>

definition build :: "nat \<Rightarrow> int \<Rightarrow> string \<Rightarrow> nat \<Rightarrow> error + response" where
  "build n run_id conclusion k =
     (if k < n then run_list [run_json run_id ''in_progress'' JNull]
      else run_list [run_json run_id ''completed'' (JStr conclusion)])"

definition built_at :: "nat \<Rightarrow> env" where
  "built_at n = service (build n 42 ''success'') (http_status 404) artifact_list apk_zip"

definition failed_at :: "nat \<Rightarrow> env" where
  "failed_at n = service (build n 7 ''failure'') log_zip (http_status 404) (http_status 404)"

definition never_built :: env where
  "never_built =
     service (\<lambda>k. run_list [run_json 42 ''queued'' JNull]) (http_status 404) (http_status 404)
       (http_status 404)"

definition no_runs_yet :: env where
  "no_runs_yet =
     service (\<lambda>k. run_list []) (http_status 404) (http_status 404) (http_status 404)"

definition unavailable :: env where
  "unavailable =
     service (\<lambda>k. http_status 500) (http_status 500) (http_status 500) (http_status 500)"

definition unreachable :: env where
  "unreachable =
     service (\<lambda>k. Inl RequestException) (Inl RequestException) (Inl RequestException)
       (Inl RequestException)"


definition built_without_artifact :: env where
  "built_without_artifact =
     service (build 0 42 ''success'') (http_status 404) (http_status 404) (http_status 404)"

definition bare_run :: env where
  "bare_run =
     service (\<lambda>k. run_list [JObj [(''id'', JInt 7), (''status'', JStr ''in_progress'')]])
       (http_status 404) (http_status 404) (http_status 404)"




definition built_no_apk :: env where
  "built_no_apk =
     service (build 0 42 ''success'') (http_status 404) artifact_list
       (ok_zip [ZEntry ''output-metadata.json'' (Whole ''{}'')])"

definition stale :: world where
  "stale = fresh\<lparr>files := [(([''old''], ''stale.apk''), ''PK'')]\<rparr>"


section \<open>Properties of the statements\<close>

subsection \<open>Worlds and polls\<close>

lemma advance_fields [simp]:
  "trace (advance w evs k) = trace w @ evs"
  "nreq (advance w evs k) = nreq w + k"
  "files (advance w evs k) = files w"
  "tmpdir (advance w evs k) = tmpdir w"
  "ntmp (advance w evs k) = ntmp w"
  by (simp_all add: advance_def)

lemma advance_advance [simp]:
  "advance (advance w evs j) evs' k = advance w (evs @ evs') (j + k)"
  by (cases w) (simp add: advance_def)

lemma advance_nothing [simp]: "advance w [] 0 = w"
  by (cases w) (simp add: advance_def)

lemma emit_advance: "emit ev w = (Inr (), advance w [ev] 0)"
  by (cases w) (simp add: emit_def advance_def)

lemma requests_get_advance:
  "requests_get env url w = (server env (nreq w) url, advance w [Get url] 1)"
  by (cases w) (simp add: requests_get_def advance_def)

lemma get_workflow_runs_eq:
  "get_workflow_runs env user repo w =
     (runs_of (server env (nreq w) (RunsUrl user repo)), advance w [Get (RunsUrl user repo)] 1)"
  by (simp add: get_workflow_runs_def runs_of_def requests_get_advance bind_io_def
        return_io_def lift_io_def split: sum.splits)

lemma poll_cycle_eq:
  "poll_cycle env user repo w =
     (case observe (server env (nreq w) (RunsUrl user repo)) of
        Raised e \<Rightarrow> (Inl e, advance w [Get (RunsUrl user repo)] 1)
      | NoRuns \<Rightarrow> (Inr Continue, advance w [Get (RunsUrl user repo)] 1)
      | Seen status conclusion run_id \<Rightarrow>
          if status = JStr ''completed''
          then
            if conclusion = JStr ''success''
            then bind_io (download_apk env user repo run_id) (\<lambda>_. return_io (Return True))
                   (advance w [Get (RunsUrl user repo), Print (BuildStatus status conclusion),
                               Print BuildCompleted] 1)
            else bind_io (get_workflow_logs env user repo run_id) (\<lambda>_. return_io (Return False))
                   (advance w [Get (RunsUrl user repo), Print (BuildStatus status conclusion),
                               Print BuildFailed, Print BuildLogs] 1)
          else (Inr Continue,
                advance w [Get (RunsUrl user repo), Print (BuildStatus status conclusion)] 1))"
  unfolding poll_cycle_def
  apply (subst bind_io_def)
  apply (simp only: get_workflow_runs_eq prod.case)
  apply (simp add: observe_def py_print_def emit_advance bind_io_def return_io_def lift_io_def
           split: sum.splits)
  done

lemma poll_cycle_pending:
  assumes "pending (observe (server env (nreq w) (RunsUrl user repo)))"
  shows "poll_cycle env user repo w =
           (Inr Continue,
            advance w (Get (RunsUrl user repo)
                       # status_line (observe (server env (nreq w) (RunsUrl user repo)))) 1)"
  using assms
  by (simp add: poll_cycle_eq pending_def status_line_def split: observation.splits)

lemma monitor_loop_step:
  assumes "attempt < max_attempts"
      and "pending (observe (server env (nreq w) (RunsUrl user repo)))"
  shows "monitor_loop env user repo attempt w =
           monitor_loop env user repo (Suc attempt)
             (advance w (cycle_events (RunsUrl user repo)
                           (observe (server env (nreq w) (RunsUrl user repo)))) 1)"
  apply (subst monitor_loop.simps)
  apply (simp add: assms poll_cycle_pending cycle_events_def time_sleep_def emit_advance)
  done

lemma monitor_loop_waited:
  assumes "\<forall>j<k. pending (observe (server env (nreq w + j) (RunsUrl user repo)))"
      and "attempt + k \<le> max_attempts"
  shows "monitor_loop env user repo attempt w =
           monitor_loop env user repo (attempt + k)
             (advance w (waited env (RunsUrl user repo) (nreq w) k) k)"
  using assms
proof (induction k arbitrary: attempt w)
  case 0
  then show ?case by simp
next
  case (Suc k)
  let ?url = "RunsUrl user repo"
  let ?w1 = "advance w (cycle_events ?url (observe (server env (nreq w) ?url))) 1"
  have p0: "pending (observe (server env (nreq w) ?url))"
    using Suc.prems(1) by (metis add.right_neutral zero_less_Suc)
  have rest: "\<forall>j<k. pending (observe (server env (nreq ?w1 + j) ?url))"
    using Suc.prems(1) by (auto dest: spec [of _ "Suc _"])
  have "monitor_loop env user repo attempt w = monitor_loop env user repo (Suc attempt) ?w1"
    using Suc.prems(2) p0 by (intro monitor_loop_step) simp_all
  also have "\<dots> = monitor_loop env user repo (Suc attempt + k)
                     (advance ?w1 (waited env ?url (nreq ?w1) k) k)"
    using Suc.prems(2) by (intro Suc.IH rest) simp
  finally show ?case by simp
qed

lemma monitor_loop_timeout:
  "monitor_loop env user repo max_attempts w = (Inr False, advance w [Print BuildTimeout] 0)"
  by (subst monitor_loop.simps) (simp add: py_print_def emit_advance bind_io_def return_io_def)

subsection \<open>Views of a trace\<close>

lemma requests_simps [simp]:
  "requests [] = []"
  "requests (Get url # evs) = url # requests evs"
  "requests (Sleep n # evs) = requests evs"
  "requests (Print m # evs) = requests evs"
  "requests (evs @ evs') = requests evs @ requests evs'"
  by (simp_all add: requests_def)

lemma sleeps_simps [simp]:
  "sleeps [] = []"
  "sleeps (Get url # evs) = sleeps evs"
  "sleeps (Sleep n # evs) = n # sleeps evs"
  "sleeps (Print m # evs) = sleeps evs"
  "sleeps (evs @ evs') = sleeps evs @ sleeps evs'"
  by (simp_all add: sleeps_def)

lemma lines_simps [simp]:
  "lines [] = []"
  "lines (Get url # evs) = lines evs"
  "lines (Sleep n # evs) = lines evs"
  "lines (Print m # evs) = m # lines evs"
  "lines (evs @ evs') = lines evs @ lines evs'"
  by (simp_all add: lines_def)

lemma artifact_requests_simps [simp]:
  "artifact_requests [] = []"
  "artifact_requests (Get (ArtifactsUrl user repo run_id) # evs) = run_id # artifact_requests evs"
  "artifact_requests (Get (RunsUrl user repo) # evs) = artifact_requests evs"
  "artifact_requests (Get (LogsUrl user repo run_id) # evs) = artifact_requests evs"
  "artifact_requests (Get (Url u) # evs) = artifact_requests evs"
  "artifact_requests (Sleep n # evs) = artifact_requests evs"
  "artifact_requests (Print m # evs) = artifact_requests evs"
  "artifact_requests (evs @ evs') = artifact_requests evs @ artifact_requests evs'"
  by (simp_all add: artifact_requests_def)

lemma log_requests_simps [simp]:
  "log_requests [] = []"
  "log_requests (Get (LogsUrl user repo run_id) # evs) = run_id # log_requests evs"
  "log_requests (Get (RunsUrl user repo) # evs) = log_requests evs"
  "log_requests (Get (ArtifactsUrl user repo run_id) # evs) = log_requests evs"
  "log_requests (Get (Url u) # evs) = log_requests evs"
  "log_requests (Sleep n # evs) = log_requests evs"
  "log_requests (Print m # evs) = log_requests evs"
  "log_requests (evs @ evs') = log_requests evs @ log_requests evs'"
  by (simp_all add: log_requests_def)

lemma status_line_views [simp]:
  "requests (status_line obs) = []"
  "sleeps (status_line obs) = []"
  "artifact_requests (status_line obs) = []"
  "log_requests (status_line obs) = []"
  by (simp_all add: status_line_def split: observation.splits)

lemma lines_status_line:
  "m \<in> set (lines (status_line obs)) \<Longrightarrow> \<exists>s c. m = BuildStatus s c"
  by (auto simp: status_line_def split: observation.splits)

lemma requests_waited [simp]: "requests (waited env url n k) = replicate k url"
  by (induction k arbitrary: n) (simp_all add: cycle_events_def)

lemma sleeps_waited [simp]: "sleeps (waited env url n k) = replicate k 10"
  by (induction k arbitrary: n) (simp_all add: cycle_events_def)

lemma artifact_requests_waited [simp]:
  "artifact_requests (waited env (RunsUrl user repo) n k) = []"
  by (induction k arbitrary: n) (simp_all add: cycle_events_def)

lemma log_requests_waited [simp]:
  "log_requests (waited env (RunsUrl user repo) n k) = []"
  by (induction k arbitrary: n) (simp_all add: cycle_events_def)

lemma lines_waited:
  "m \<in> set (lines (waited env url n k)) \<Longrightarrow> \<exists>s c. m = BuildStatus s c"
  by (induction k arbitrary: n) (auto simp: cycle_events_def dest: lines_status_line)

lemma new_events_advance [simp]: "new_events w (advance w evs k) = evs"
  by (simp add: new_events_def)

lemma new_events_extend: "trace w' = trace w @ evs \<Longrightarrow> new_events w w' = evs"
  by (simp add: new_events_def)

subsection \<open>Events of the client calls\<close>

lemma emitsI:
  "(\<And>w r w'. m w = (r, w') \<Longrightarrow> \<exists>evs. trace w' = trace w @ evs \<and> P evs) \<Longrightarrow> emits P m"
  by (simp add: emits_def)

lemma emitsD:
  "emits P m \<Longrightarrow> m w = (r, w') \<Longrightarrow> \<exists>evs. trace w' = trace w @ evs \<and> P evs"
  by (simp add: emits_def)

lemma emits_return: "P [] \<Longrightarrow> emits P (return_io x)"
  by (simp add: emits_def return_io_def)

lemma emits_lift: "P [] \<Longrightarrow> emits P (lift_io r)"
  by (simp add: emits_def lift_io_def)

lemma emits_emit: "P [ev] \<Longrightarrow> emits P (emit ev)"
  by (simp add: emits_def emit_def)

lemma emits_print: "P [Print m] \<Longrightarrow> emits P (py_print m)"
  by (simp add: py_print_def emits_emit)

lemma emits_requests_get: "P [Get url] \<Longrightarrow> emits P (requests_get env url)"
  by (simp add: emits_def requests_get_def)

lemma emits_seq:
  assumes "emits P m" and "\<And>x. emits Q (f x)"
      and "\<And>a b. P a \<Longrightarrow> Q b \<Longrightarrow> R (a @ b)" and "\<And>a. P a \<Longrightarrow> R a"
  shows "emits R (bind_io m f)"
proof (rule emitsI)
  fix w r w'
  assume run: "bind_io m f w = (r, w')"
  obtain r1 w1 where m: "m w = (r1, w1)" by (cases "m w")
  from emitsD [OF assms(1) m] obtain a where a: "trace w1 = trace w @ a" "P a" by blast
  show "\<exists>evs. trace w' = trace w @ evs \<and> R evs"
  proof (cases r1)
    case (Inl e)
    with run m have "w' = w1" by (simp add: bind_io_def)
    with a assms(4) show ?thesis by blast
  next
    case (Inr x)
    with run m have "f x w1 = (r, w')" by (simp add: bind_io_def)
    from emitsD [OF assms(2) this] obtain b where "trace w' = trace w1 @ b" "Q b" by blast
    with a assms(3) show ?thesis by (intro exI [of _ "a @ b"]) simp
  qed
qed

lemma emits_bind:
  "emits (list_all \<phi>) m \<Longrightarrow> (\<And>x. emits (list_all \<phi>) (f x)) \<Longrightarrow> emits (list_all \<phi>) (bind_io m f)"
  by (erule emits_seq) simp_all

lemma emits_finally:
  assumes "emits (list_all \<phi>) body" and "emits (list_all \<phi>) cleanup"
  shows "emits (list_all \<phi>) (try_finally body cleanup)"
proof (rule emitsI)
  fix w r w'
  assume run: "try_finally body cleanup w = (r, w')"
  obtain r1 w1 where b: "body w = (r1, w1)" by (cases "body w")
  obtain r2 w2 where c: "cleanup w1 = (r2, w2)" by (cases "cleanup w1")
  from run b c have "w' = w2" by (simp add: try_finally_def split: sum.splits)
  moreover from emitsD [OF assms(1) b] obtain a where "trace w1 = trace w @ a" "list_all \<phi> a"
    by blast
  moreover from emitsD [OF assms(2) c] obtain d where "trace w2 = trace w1 @ d" "list_all \<phi> d"
    by blast
  ultimately show "\<exists>evs. trace w' = trace w @ evs \<and> list_all \<phi> evs"
    by (intro exI [of _ "a @ d"]) simp
qed

lemma emits_if:
  "(c \<Longrightarrow> emits P a) \<Longrightarrow> (\<not> c \<Longrightarrow> emits P b) \<Longrightarrow> emits P (if c then a else b)"
  by simp

lemma emits_silent:
  "(\<And>w r w'. m w = (r, w') \<Longrightarrow> trace w' = trace w) \<Longrightarrow> emits (list_all \<phi>) m"
  by (rule emitsI) fastforce

lemma extractall_trace: "extractall ms w = (r, w') \<Longrightarrow> trace w' = trace w"
  by (auto simp: extractall_def split: prod.splits option.splits)

lemma emits_named_temporary_file: "emits (list_all \<phi>) (named_temporary_file z)"
  by (rule emits_silent) (auto simp: named_temporary_file_def)

lemma emits_os_unlink: "emits (list_all \<phi>) (os_unlink name)"
  by (rule emits_silent) (auto simp: os_unlink_def split: option.splits)

lemma emits_zipfile_open: "emits (list_all \<phi>) (zipfile_open name)"
  by (rule emits_silent) (auto simp: zipfile_open_def split: option.splits zipdata.splits)

lemma emits_extractall: "emits (list_all \<phi>) (extractall ms)"
  by (rule emits_silent) (rule extractall_trace)

lemma emits_walk: "emits (list_all \<phi>) walk_finds_apk"
  by (rule emits_silent) (auto simp: walk_finds_apk_def)

lemmas emits_intros = emits_bind emits_finally emits_if emits_return emits_lift emits_print
  emits_requests_get emits_named_temporary_file emits_os_unlink emits_zipfile_open
  emits_extractall emits_walk

lemma emits_show_logs: "emits (list_all log_event) (show_logs env ms names)"
  by (induction env ms names rule: show_logs.induct) (auto intro!: emits_intros)

lemma download_apk_events:
  assumes "download_apk env user repo run_id w = (r, w')"
  shows "\<exists>evs. trace w' = trace w @ Get (ArtifactsUrl user repo run_id) # evs
               \<and> list_all download_event evs"
proof -
  have "emits (\<lambda>evs. \<exists>tl. evs = Get (ArtifactsUrl user repo run_id) # tl \<and> list_all download_event tl)
          (download_apk env user repo run_id)"
    unfolding download_apk_def
    apply (rule emits_seq [where P = "\<lambda>evs. evs = [Get (ArtifactsUrl user repo run_id)]"
                             and Q = "list_all download_event"])
       apply (rule emits_requests_get, simp)
      apply (intro emits_intros; simp)
     apply simp
    apply simp
    done
  from emitsD [OF this assms] show ?thesis by auto
qed

lemma get_workflow_logs_events:
  assumes "get_workflow_logs env user repo run_id w = (r, w')"
  shows "\<exists>evs. trace w' = trace w @ Get (LogsUrl user repo run_id) # evs
               \<and> list_all log_event evs"
proof -
  have "emits (\<lambda>evs. \<exists>tl. evs = Get (LogsUrl user repo run_id) # tl \<and> list_all log_event tl)
          (get_workflow_logs env user repo run_id)"
    unfolding get_workflow_logs_def
    apply (rule emits_seq [where P = "\<lambda>evs. evs = [Get (LogsUrl user repo run_id)]"
                             and Q = "list_all log_event"])
       apply (rule emits_requests_get, simp)
      apply (intro emits_intros emits_show_logs; simp)
     apply simp
    apply simp
    done
  from emitsD [OF this assms] show ?thesis by auto
qed

subsection \<open>The terminal cycle\<close>

lemma download_event_views:
  assumes "list_all download_event evs"
  shows "artifact_requests evs = []" and "log_requests evs = []" and "sleeps evs = []"
    and "BuildCompleted \<notin> set (lines evs)" and "BuildFailed \<notin> set (lines evs)"
    and "BuildTimeout \<notin> set (lines evs)"
  using assms
  by (induction evs; auto elim: download_event.elims)+

lemma log_event_views:
  assumes "list_all log_event evs"
  shows "artifact_requests evs = []" and "log_requests evs = []" and "sleeps evs = []"
    and "requests evs = []"
    and "BuildCompleted \<notin> set (lines evs)" and "BuildFailed \<notin> set (lines evs)"
    and "BuildTimeout \<notin> set (lines evs)"
  using assms
  by (induction evs; auto elim: log_event.elims)+

lemma monitor_build_loop:
  "monitor_build env user repo w = monitor_loop env user repo 0 (advance w [Print Monitoring] 0)"
  by (simp add: monitor_build_def bind_io_def py_print_def emit_advance)

lemma monitor_loop_success:
  assumes "attempt < max_attempts"
      and "observe (server env (nreq w) (RunsUrl user repo))
             = Seen (JStr ''completed'') (JStr ''success'') run_id"
  shows "monitor_loop env user repo attempt w =
           (case download_apk env user repo run_id
                   (advance w [Get (RunsUrl user repo),
                               Print (BuildStatus (JStr ''completed'') (JStr ''success'')),
                               Print BuildCompleted] 1) of
              (Inl e, w') \<Rightarrow> (Inl e, w')
            | (Inr found, w') \<Rightarrow> (Inr True, w'))"
  apply (subst monitor_loop.simps)
  apply (simp add: assms poll_cycle_eq bind_io_def return_io_def split: prod.splits sum.splits)
  done

lemma monitor_loop_failure:
  assumes "attempt < max_attempts"
      and "observe (server env (nreq w) (RunsUrl user repo))
             = Seen (JStr ''completed'') conclusion run_id"
      and "conclusion \<noteq> JStr ''success''"
  shows "monitor_loop env user repo attempt w =
           (case get_workflow_logs env user repo run_id
                   (advance w [Get (RunsUrl user repo),
                               Print (BuildStatus (JStr ''completed'') conclusion),
                               Print BuildFailed, Print BuildLogs] 1) of
              (Inl e, w') \<Rightarrow> (Inl e, w')
            | (Inr u, w') \<Rightarrow> (Inr False, w'))"
  apply (subst monitor_loop.simps)
  apply (simp add: assms poll_cycle_eq bind_io_def return_io_def split: prod.splits sum.splits)
  done

lemma monitor_loop_raise:
  assumes "attempt < max_attempts"
      and "poll_cycle env user repo w = (Inl e, w')"
  shows "monitor_loop env user repo attempt w = (Inl e, w')"
  by (subst monitor_loop.simps) (simp add: assms)

subsection \<open>Scenarios\<close>

lemma server_service [simp]:
  "server (service polls logs artifacts download) n (RunsUrl user repo) = polls n"
  "server (service polls logs artifacts download) n (LogsUrl user repo run_id) = logs"
  "server (service polls logs artifacts download) n (ArtifactsUrl user repo run_id) = artifacts"
  "server (service polls logs artifacts download) n (Url u) = download"
  "decode_utf8 (service polls logs artifacts download) = Some"
  by (simp_all add: service_def)

lemma fresh_fields [simp]:
  "trace fresh = []" "nreq fresh = 0" "files fresh = []" "tmpdir fresh = []" "ntmp fresh = 0"
  by (simp_all add: fresh_def)

lemma observe_build:
  "observe (build n i c k) =
     (if k < n then Seen (JStr ''in_progress'') JNull (JInt i)
      else Seen (JStr ''completed'') (JStr c) (JInt i))"
  by (simp add: build_def run_list_def ok_json_def run_json_def observe_def runs_of_def
        response_json_def)

lemma pending_build: "pending (observe (build n i c k)) \<longleftrightarrow> k < n"
  by (simp add: observe_build pending_def)

lemma monitor_build_timeout:
  assumes "\<forall>j<max_attempts. pending (observe (server env (nreq w + j) (RunsUrl user repo)))"
  shows "monitor_build env user repo w =
           (Inr False,
            advance w (Print Monitoring # waited env (RunsUrl user repo) (nreq w) max_attempts
                       @ [Print BuildTimeout]) max_attempts)"
proof -
  let ?url = "RunsUrl user repo"
  let ?w0 = "advance w [Print Monitoring] 0"
  have "monitor_build env user repo w = monitor_loop env user repo 0 ?w0"
    by (rule monitor_build_loop)
  also have "\<dots> = monitor_loop env user repo (0 + max_attempts)
                     (advance ?w0 (waited env ?url (nreq ?w0) max_attempts) max_attempts)"
    using assms by (intro monitor_loop_waited) simp_all
  also have "\<dots> = (Inr False, advance w (Print Monitoring # waited env ?url (nreq w) max_attempts
                       @ [Print BuildTimeout]) max_attempts)"
    by (simp add: monitor_loop_timeout)
  finally show ?thesis .
qed

lemma observe_no_runs: "runs_of a = Inr (JList []) \<Longrightarrow> observe a = NoRuns"
  by (simp add: observe_def)

lemma waited_no_runs:
  "\<forall>j<k. observe (server env (n + j) url) = NoRuns \<Longrightarrow>
     waited env url n k = concat (replicate k [Get url, Sleep 10])"
proof (induction k arbitrary: n)
  case 0
  then show ?case by simp
next
  case (Suc k)
  have "observe (server env n url) = NoRuns"
    using Suc.prems by (metis add.right_neutral zero_less_Suc)
  moreover have "\<forall>j<k. observe (server env (Suc n + j) url) = NoRuns"
    using Suc.prems by (auto dest: spec [of _ "Suc _"])
  ultimately show ?case
    using Suc.IH [of "Suc n"] by (simp add: cycle_events_def status_line_def)
qed

lemma observe_queued:
  "observe (run_list [run_json i ''queued'' JNull]) = Seen (JStr ''queued'') JNull (JInt i)"
  by (simp add: run_list_def ok_json_def run_json_def observe_def runs_of_def response_json_def)

lemma runs_of_run_list: "runs_of (run_list runs) = Inr (JList runs)"
  by (simp add: run_list_def ok_json_def runs_of_def response_json_def)

lemma runs_of_http_status: "code \<noteq> 200 \<Longrightarrow> runs_of (http_status code) = Inr (JList [])"
  by (simp add: http_status_def runs_of_def)

subsection \<open>Downloading and extracting\<close>

lemma extractall_eq:
  "extractall ms w =
     (case extracted ms (files w) of
        (None, fs) \<Rightarrow> (Inr (), w\<lparr>files := fs\<rparr>)
      | (Some e, fs) \<Rightarrow> (Inl e, w\<lparr>files := fs\<rparr>))"
  by (simp add: extractall_def)

lemma map_of_filter_out: "map_of (filter (\<lambda>f. fst f \<noteq> k) xs) k = None"
  by (induction xs) auto

lemma serves_archiveD:
  assumes "serves_archive env user repo run_id w z"
  obtains listing body artifacts items apk_artifact download_url payload where
    "server env (nreq w) (ArtifactsUrl user repo run_id) = Inr listing"
    "status_code listing = 200"
    "response_json listing = Inr body"
    "getitem body ''artifacts'' = Inr artifacts"
    "iterate artifacts = Inr items"
    "find_artifact items = Inr apk_artifact"
    "truthy apk_artifact"
    "getitem apk_artifact ''archive_download_url'' = Inr download_url"
    "server env (Suc (nreq w)) (Url download_url) = Inr payload"
    "status_code payload = 200"
    "content payload = z"
  using assms unfolding serves_archive_def
  by (auto split: sum.splits)

lemmas download_defs = download_apk_def bind_io_def lift_io_def return_io_def
  requests_get_advance py_print_def emit_advance named_temporary_file_def try_finally_def
  zipfile_open_def os_unlink_def walk_finds_apk_def extractall_eq map_of_filter_out

lemma download_apk_served:
  assumes "serves_archive env user repo run_id w z"
  shows "fst (download_apk env user repo run_id w) =
           (case z of
              NotZip \<Rightarrow> Inl BadZipFile
            | Zip ms \<Rightarrow>
               (case extracted ms (files w) of
                  (Some e, fs) \<Rightarrow> Inl e
                | (None, fs) \<Rightarrow> Inr (list_ex (\<lambda>f. endswith (snd (fst f)) ''.apk'') fs)))"
    and "files (snd (download_apk env user repo run_id w)) =
           (case z of NotZip \<Rightarrow> files w | Zip ms \<Rightarrow> snd (extracted ms (files w)))"
    and "map_of (tmpdir (snd (download_apk env user repo run_id w))) (ntmp w) = None"
proof -
  from assms obtain listing body artifacts items apk_artifact download_url payload where f:
    "server env (nreq w) (ArtifactsUrl user repo run_id) = Inr listing"
    "status_code listing = 200"
    "response_json listing = Inr body"
    "getitem body ''artifacts'' = Inr artifacts"
    "iterate artifacts = Inr items"
    "find_artifact items = Inr apk_artifact"
    "truthy apk_artifact"
    "getitem apk_artifact ''archive_download_url'' = Inr download_url"
    "server env (Suc (nreq w)) (Url download_url) = Inr payload"
    "status_code payload = 200"
    "content payload = z"
    by (rule serves_archiveD)
  note simps = download_defs f
  show "fst (download_apk env user repo run_id w) =
           (case z of
              NotZip \<Rightarrow> Inl BadZipFile
            | Zip ms \<Rightarrow>
               (case extracted ms (files w) of
                  (Some e, fs) \<Rightarrow> Inl e
                | (None, fs) \<Rightarrow> Inr (list_ex (\<lambda>f. endswith (snd (fst f)) ''.apk'') fs)))"
  proof (cases z)
    case NotZip
    then show ?thesis by (simp add: simps)
  next
    case (Zip ms)
    obtain e fs where ex: "extracted ms (files w) = (e, fs)"
      by (cases "extracted ms (files w)")
    show ?thesis
      by (cases e) (simp_all add: simps Zip ex)
  qed
  show "files (snd (download_apk env user repo run_id w)) =
           (case z of NotZip \<Rightarrow> files w | Zip ms \<Rightarrow> snd (extracted ms (files w)))"
  proof (cases z)
    case NotZip
    then show ?thesis by (simp add: simps)
  next
    case (Zip ms)
    obtain e fs where ex: "extracted ms (files w) = (e, fs)"
      by (cases "extracted ms (files w)")
    show ?thesis
      by (cases e) (simp_all add: simps Zip ex)
  qed
  show "map_of (tmpdir (snd (download_apk env user repo run_id w))) (ntmp w) = None"
  proof (cases z)
    case NotZip
    then show ?thesis by (simp add: simps)
  next
    case (Zip ms)
    obtain e fs where ex: "extracted ms (files w) = (e, fs)"
      by (cases "extracted ms (files w)")
    show ?thesis
      by (cases e) (simp_all add: simps Zip ex)
  qed
qed


lemma write_file_paths: "fst ` set (write_file p d fs) = insert p (fst ` set fs)"
  by (induction fs) auto

lemma getinfo_filename: "getinfo ms name = Some m \<Longrightarrow> filename m = name"
proof -
  assume "getinfo ms name = Some m"
  then obtain rest where "filter (\<lambda>m. filename m = name) (rev ms) = m # rest"
    by (auto simp: getinfo_def split: list.splits)
  then have "m \<in> set (filter (\<lambda>m. filename m = name) (rev ms))"
    by simp
  then show ?thesis
    by simp
qed

lemma extract_member_paths:
  assumes "extract_member m fs = (None, fs')"
  shows "fst ` set fs' = fst ` set fs \<union> set (path_of (filename m))"
proof (cases m)
  case (ZEntry name data)
  show ?thesis
  proof (cases "is_dir name")
    case True
    with assms ZEntry show ?thesis
      by (simp add: path_of_def)
  next
    case False
    with assms ZEntry obtain bytes p ps where "data = Whole bytes" "target_of name = p # ps"
      "fs' = write_file (butlast (p # ps), last (p # ps)) bytes fs"
      by (cases data; cases "target_of name")
         (simp_all del: butlast.simps last.simps)
    with False ZEntry show ?thesis
      by (simp add: path_of_def write_file_paths del: butlast.simps last.simps)
  qed
qed

lemma extract_names_paths:
  "extract_names ms names fs = (None, fs') \<Longrightarrow>
     fst ` set fs' = fst ` set fs \<union> set (concat (map path_of names))"
proof (induction names arbitrary: fs)
  case Nil
  then show ?case by simp
next
  case (Cons name names)
  from Cons.prems obtain m fs1 where m: "getinfo ms name = Some m"
    and one: "extract_member m fs = (None, fs1)"
    and rest: "extract_names ms names fs1 = (None, fs')"
    by (auto split: option.splits prod.splits)
  have "filename m = name"
    using m by (rule getinfo_filename)
  with extract_member_paths [OF one] Cons.IH [OF rest] show ?case
    by auto
qed

lemma extracted_paths:
  "fst (extracted ms fs) = None \<Longrightarrow>
     set (map fst (snd (extracted ms fs))) = set (map fst fs) \<union> set (member_paths ms)"
proof -
  assume "fst (extracted ms fs) = None"
  then have "extract_names ms (map filename ms) fs = (None, snd (extracted ms fs))"
    by (simp add: extracted_def prod_eq_iff)
  from extract_names_paths [OF this] show ?thesis
    by (simp add: member_paths_def comp_def)
qed

lemma list_ex_paths:
  "list_ex (\<lambda>f. P (fst f)) fs \<longleftrightarrow> (\<exists>p \<in> set (map fst fs). P p)"
  by (induction fs) auto

subsection \<open>The lines of a run\<close>

lemma monitor_loop_done:
  "\<not> attempt < max_attempts \<Longrightarrow>
     monitor_loop env user repo attempt w = (Inr False, advance w [Print BuildTimeout] 0)"
  by (subst monitor_loop.simps) (simp add: py_print_def emit_advance bind_io_def return_io_def)

lemma told_apart_quiet:
  assumes "BuildCompleted \<notin> set pre" "BuildFailed \<notin> set pre" "BuildTimeout \<notin> set pre"
  shows "told_apart r (pre @ ls) \<longleftrightarrow> told_apart r ls"
  using assms by (simp add: told_apart_def)

lemma cycle_events_quiet:
  "BuildCompleted \<notin> set (lines (cycle_events url obs))"
  "BuildFailed \<notin> set (lines (cycle_events url obs))"
  "BuildTimeout \<notin> set (lines (cycle_events url obs))"
  by (auto simp: cycle_events_def dest: lines_status_line)

lemma monitor_loop_told_apart:
  assumes "monitor_loop env user repo attempt w = (r, w')"
  shows "\<exists>evs. trace w' = trace w @ evs \<and> told_apart r (lines evs)"
  using assms
proof (induction "max_attempts - attempt" arbitrary: attempt w)
  case 0
  then have "\<not> attempt < max_attempts"
    by simp
  from monitor_loop_done [OF this] "0.prems"
  have "r = Inr False" "w' = advance w [Print BuildTimeout] 0"
    by simp_all
  then show ?case
    by (intro exI [of _ "[Print BuildTimeout]"]) (simp add: told_apart_def)
next
  case (Suc d)
  let ?url = "RunsUrl user repo"
  let ?obs = "observe (server env (nreq w) ?url)"
  from Suc.hyps(2) have lt: "attempt < max_attempts"
    by simp
  consider (pend) "pending ?obs"
    | (raised) e where "?obs = Raised e"
    | (good) run_id where "?obs = Seen (JStr ''completed'') (JStr ''success'') run_id"
    | (bad) c run_id where "?obs = Seen (JStr ''completed'') c run_id" "c \<noteq> JStr ''success''"
    by (cases ?obs) (auto simp: pending_def)
  then show ?case
  proof cases
    case pend
    let ?w1 = "advance w (cycle_events ?url ?obs) 1"
    from monitor_loop_step [OF lt pend] Suc.prems
    have "monitor_loop env user repo (Suc attempt) ?w1 = (r, w')"
      by simp
    moreover from Suc.hyps(2) have "d = max_attempts - Suc attempt"
      by simp
    ultimately obtain evs where "trace w' = trace ?w1 @ evs" "told_apart r (lines evs)"
      using Suc.hyps(1) by blast
    then show ?thesis
      by (intro exI [of _ "cycle_events ?url ?obs @ evs"])
         (simp add: told_apart_quiet [OF cycle_events_quiet])
  next
    case raised
    then have "poll_cycle env user repo w = (Inl e, advance w [Get ?url] 1)"
      by (simp add: poll_cycle_eq)
    from monitor_loop_raise [OF lt this] Suc.prems
    have "r = Inl e" "w' = advance w [Get ?url] 1"
      by simp_all
    then show ?thesis
      by (intro exI [of _ "[Get ?url]"]) (simp add: told_apart_def)
  next
    case good
    let ?fin = "[Get ?url, Print (BuildStatus (JStr ''completed'') (JStr ''success'')),
                 Print BuildCompleted]"
    obtain rd wd where d: "download_apk env user repo run_id (advance w ?fin 1) = (rd, wd)"
      by (cases "download_apk env user repo run_id (advance w ?fin 1)")
    from monitor_loop_success [OF lt good] Suc.prems d
    have r: "r = map_sum id (\<lambda>found. True) rd" "w' = wd"
      by (cases rd; simp)+
    from download_apk_events [OF d] obtain evs
      where evs: "trace wd = trace w @ ?fin @ Get (ArtifactsUrl user repo run_id) # evs"
                 "list_all download_event evs"
      by auto
    show ?thesis
      using r evs(1) download_event_views(4-6) [OF evs(2)]
      by (intro exI [of _ "?fin @ Get (ArtifactsUrl user repo run_id) # evs"])
         (cases rd; simp add: told_apart_def)
  next
    case bad
    let ?fin = "[Get ?url, Print (BuildStatus (JStr ''completed'') c),
                 Print BuildFailed, Print BuildLogs]"
    obtain rl wl where l: "get_workflow_logs env user repo run_id (advance w ?fin 1) = (rl, wl)"
      by (cases "get_workflow_logs env user repo run_id (advance w ?fin 1)")
    from monitor_loop_failure [OF lt bad] Suc.prems l
    have r: "r = map_sum id (\<lambda>u. False) rl" "w' = wl"
      by (cases rl; simp)+
    from get_workflow_logs_events [OF l] obtain evs
      where evs: "trace wl = trace w @ ?fin @ Get (LogsUrl user repo run_id) # evs"
                 "list_all log_event evs"
      by auto
    show ?thesis
      using r evs(1) log_event_views(5-7) [OF evs(2)]
      by (intro exI [of _ "?fin @ Get (LogsUrl user repo run_id) # evs"])
         (cases rl; simp add: told_apart_def)
  qed
qed

lemma monitor_loop_polls:
  assumes "attempt < max_attempts"
      and "monitor_loop env user repo attempt w = (r, w')"
  shows "\<exists>tl. trace w' = trace w @ Get (RunsUrl user repo) # tl"
proof -
  let ?url = "RunsUrl user repo"
  let ?obs = "observe (server env (nreq w) ?url)"
  consider (pend) "pending ?obs"
    | (raised) e where "?obs = Raised e"
    | (good) run_id where "?obs = Seen (JStr ''completed'') (JStr ''success'') run_id"
    | (bad) c run_id where "?obs = Seen (JStr ''completed'') c run_id" "c \<noteq> JStr ''success''"
    by (cases ?obs) (auto simp: pending_def)
  then show ?thesis
  proof cases
    case pend
    let ?w1 = "advance w (cycle_events ?url ?obs) 1"
    from monitor_loop_step [OF assms(1) pend] assms(2)
    have "monitor_loop env user repo (Suc attempt) ?w1 = (r, w')"
      by simp
    from monitor_loop_told_apart [OF this] obtain evs where "trace w' = trace ?w1 @ evs"
      by blast
    then show ?thesis
      by (simp add: cycle_events_def)
  next
    case raised
    then have "poll_cycle env user repo w = (Inl e, advance w [Get ?url] 1)"
      by (simp add: poll_cycle_eq)
    from monitor_loop_raise [OF assms(1) this] assms(2) have "w' = advance w [Get ?url] 1"
      by simp
    then show ?thesis
      by simp
  next
    case good
    let ?fin = "[Get ?url, Print (BuildStatus (JStr ''completed'') (JStr ''success'')),
                 Print BuildCompleted]"
    obtain rd wd where d: "download_apk env user repo run_id (advance w ?fin 1) = (rd, wd)"
      by (cases "download_apk env user repo run_id (advance w ?fin 1)")
    from monitor_loop_success [OF assms(1) good] assms(2) d have "w' = wd"
      by (cases rd) simp_all
    with download_apk_events [OF d] show ?thesis
      by auto
  next
    case bad
    let ?fin = "[Get ?url, Print (BuildStatus (JStr ''completed'') c),
                 Print BuildFailed, Print BuildLogs]"
    obtain rl wl where l: "get_workflow_logs env user repo run_id (advance w ?fin 1) = (rl, wl)"
      by (cases "get_workflow_logs env user repo run_id (advance w ?fin 1)")
    from monitor_loop_failure [OF assms(1) bad] assms(2) l have "w' = wl"
      by (cases rl) simp_all
    with get_workflow_logs_events [OF l] show ?thesis
      by auto
  qed
qed

section \<open>The claims\<close>

text \<open>
  Claim C1, as the code has it. When the first \<open>n\<close> polls, \<open>n\<close> below \<open>max_attempts\<close>, are
  read without an exception and show no completed run, and the next poll shows a first
  run with status \<open>completed\<close> and conclusion \<open>success\<close>, then \<open>monitor_build\<close> prints
  that the build completed, calls \<open>download_apk\<close> once, with that run's id (the only
  request for artifacts in the whole run), never asks for logs, and returns \<open>True\<close>
  whatever \<open>download_apk\<close> returns; an exception of \<open>download_apk\<close> is the outcome of
  \<open>monitor_build\<close>.
\<close>

theorem monitor_build_succeeds:
  assumes "n < max_attempts"
      and "\<forall>j<n. pending (observe (server env (nreq w + j) (RunsUrl user repo)))"
      and "observe (server env (nreq w + n) (RunsUrl user repo))
             = Seen (JStr ''completed'') (JStr ''success'') run_id"
  shows "\<exists>wd rd w'. download_apk env user repo run_id wd = (rd, w')
           \<and> monitor_build env user repo w = (map_sum id (\<lambda>found. True) rd, w')
           \<and> artifact_requests (new_events w w') = [run_id]
           \<and> log_requests (new_events w w') = []
           \<and> BuildCompleted \<in> set (lines (new_events w w'))"
proof -
  let ?url = "RunsUrl user repo"
  let ?w0 = "advance w [Print Monitoring] 0"
  let ?pre = "Print Monitoring # waited env ?url (nreq w) n"
  let ?wn = "advance w ?pre n"
  let ?fin = "[Get ?url, Print (BuildStatus (JStr ''completed'') (JStr ''success'')),
               Print BuildCompleted]"
  let ?wd = "advance w (?pre @ ?fin) (Suc n)"
  obtain rd w' where d: "download_apk env user repo run_id ?wd = (rd, w')"
    by (cases "download_apk env user repo run_id ?wd")
  have "monitor_build env user repo w = monitor_loop env user repo 0 ?w0"
    by (rule monitor_build_loop)
  also have "\<dots> = monitor_loop env user repo (0 + n) (advance ?w0 (waited env ?url (nreq ?w0) n) n)"
    using assms(1,2) by (intro monitor_loop_waited) simp_all
  also have "\<dots> = monitor_loop env user repo n ?wn"
    by simp
  also have "\<dots> = (case download_apk env user repo run_id (advance ?wn ?fin 1) of
                      (Inl e, w') \<Rightarrow> (Inl e, w') | (Inr found, w') \<Rightarrow> (Inr True, w'))"
    using assms(1,3) by (intro monitor_loop_success) simp_all
  also have "advance ?wn ?fin 1 = ?wd"
    by simp
  finally have run: "monitor_build env user repo w = (map_sum id (\<lambda>found. True) rd, w')"
    using d by (cases rd) simp_all
  from download_apk_events [OF d] obtain evs
    where evs: "trace w' = trace w @ (?pre @ ?fin) @ Get (ArtifactsUrl user repo run_id) # evs"
               "list_all download_event evs"
    by auto
  have new: "new_events w w' = (?pre @ ?fin) @ Get (ArtifactsUrl user repo run_id) # evs"
    using evs(1) by (rule new_events_extend)
  show ?thesis
    using d run download_event_views [OF evs(2)]
    by (intro exI [of _ ?wd] exI [of _ rd] exI [of _ w']) (simp add: new)
qed

text \<open>Two polls in progress, then a successful run 42.\<close>

theorem monitor_build_succeeds_witness:
  "pending (observe (server (built_at 2) 0 (RunsUrl ''octocat'' ''app'')))
   \<and> pending (observe (server (built_at 2) 1 (RunsUrl ''octocat'' ''app'')))
   \<and> observe (server (built_at 2) 2 (RunsUrl ''octocat'' ''app''))
       = Seen (JStr ''completed'') (JStr ''success'') (JInt 42)
   \<and> artifact_requests (new_events fresh (snd (monitor_build (built_at 2) ''octocat'' ''app'' fresh)))
       = [JInt 42]
   \<and> log_requests (new_events fresh (snd (monitor_build (built_at 2) ''octocat'' ''app'' fresh)))
       = []"
proof -
  let ?url = "RunsUrl ''octocat'' ''app''"
  have h1: "(2::nat) < max_attempts"
    by (simp add: max_attempts_def)
  have h2: "\<forall>j<2. pending (observe (server (built_at 2) (nreq fresh + j) ?url))"
    by (simp add: built_at_def pending_build)
  have h3: "observe (server (built_at 2) (nreq fresh + 2) ?url)
              = Seen (JStr ''completed'') (JStr ''success'') (JInt 42)"
    by (simp add: built_at_def observe_build)
  from monitor_build_succeeds [OF h1 h2 h3] obtain wd rd w'
    where d: "download_apk (built_at 2) ''octocat'' ''app'' (JInt 42) wd = (rd, w')"
      and run: "monitor_build (built_at 2) ''octocat'' ''app'' fresh
                  = (map_sum id (\<lambda>found. True) rd, w')"
      and a: "artifact_requests (new_events fresh w') = [JInt 42]"
      and l: "log_requests (new_events fresh w') = []"
    by blast
  have "observe (server (built_at 2) 2 ?url)
          = Seen (JStr ''completed'') (JStr ''success'') (JInt 42)"
    by (simp add: built_at_def observe_build)
  with run a l show ?thesis
    by (simp add: built_at_def pending_build)
qed

text \<open>
  Claim C1 as stated has no bound: a run that completes with success at the 61st poll is
  never seen. The monitor returns \<open>False\<close> after 60 polls and requests no artifact.
\<close>

theorem monitor_build_succeeds_counterexample:
  "observe (server (built_at 60) 59 (RunsUrl ''octocat'' ''app''))
     = Seen (JStr ''in_progress'') JNull (JInt 42)
   \<and> observe (server (built_at 60) 60 (RunsUrl ''octocat'' ''app''))
       = Seen (JStr ''completed'') (JStr ''success'') (JInt 42)
   \<and> fst (monitor_build (built_at 60) ''octocat'' ''app'' fresh) = Inr False
   \<and> artifact_requests (trace (snd (monitor_build (built_at 60) ''octocat'' ''app'' fresh))) = []"
proof -
  let ?url = "RunsUrl ''octocat'' ''app''"
  have "\<forall>j<max_attempts. pending (observe (server (built_at 60) (nreq fresh + j) ?url))"
    by (simp add: built_at_def pending_build max_attempts_def)
  from monitor_build_timeout [OF this] show ?thesis
    by (simp add: built_at_def observe_build)
qed

text \<open>
  Claim C2, as the code has it. When the first \<open>n\<close> polls, \<open>n\<close> below \<open>max_attempts\<close>, are
  read without an exception and show no completed run, and the next poll shows a first
  run with status \<open>completed\<close> and a conclusion other than \<open>success\<close>, then
  \<open>monitor_build\<close> prints that the build failed, calls \<open>get_workflow_logs\<close> once, with
  that run's id, after exactly \<open>n + 1\<close> polls (one per cycle, \<open>n\<close> sleeps of 10 between
  them) and no other request, and returns \<open>False\<close>; an exception of
  \<open>get_workflow_logs\<close> is the outcome of \<open>monitor_build\<close>.
\<close>

theorem monitor_build_fails:
  assumes "n < max_attempts"
      and "\<forall>j<n. pending (observe (server env (nreq w + j) (RunsUrl user repo)))"
      and "observe (server env (nreq w + n) (RunsUrl user repo))
             = Seen (JStr ''completed'') conclusion run_id"
      and "conclusion \<noteq> JStr ''success''"
  shows "\<exists>wl rl w'. get_workflow_logs env user repo run_id wl = (rl, w')
           \<and> monitor_build env user repo w = (map_sum id (\<lambda>u. False) rl, w')
           \<and> requests (new_events w w')
               = replicate (Suc n) (RunsUrl user repo) @ [LogsUrl user repo run_id]
           \<and> sleeps (new_events w w') = replicate n 10
           \<and> BuildFailed \<in> set (lines (new_events w w'))"
proof -
  let ?url = "RunsUrl user repo"
  let ?w0 = "advance w [Print Monitoring] 0"
  let ?pre = "Print Monitoring # waited env ?url (nreq w) n"
  let ?wn = "advance w ?pre n"
  let ?fin = "[Get ?url, Print (BuildStatus (JStr ''completed'') conclusion),
               Print BuildFailed, Print BuildLogs]"
  let ?wl = "advance w (?pre @ ?fin) (Suc n)"
  obtain rl w' where l: "get_workflow_logs env user repo run_id ?wl = (rl, w')"
    by (cases "get_workflow_logs env user repo run_id ?wl")
  have "monitor_build env user repo w = monitor_loop env user repo 0 ?w0"
    by (rule monitor_build_loop)
  also have "\<dots> = monitor_loop env user repo (0 + n) (advance ?w0 (waited env ?url (nreq ?w0) n) n)"
    using assms(1,2) by (intro monitor_loop_waited) simp_all
  also have "\<dots> = monitor_loop env user repo n ?wn"
    by simp
  also have "\<dots> = (case get_workflow_logs env user repo run_id (advance ?wn ?fin 1) of
                      (Inl e, w') \<Rightarrow> (Inl e, w') | (Inr u, w') \<Rightarrow> (Inr False, w'))"
    using assms(1,3,4) by (intro monitor_loop_failure) simp_all
  also have "advance ?wn ?fin 1 = ?wl"
    by simp
  finally have run: "monitor_build env user repo w = (map_sum id (\<lambda>u. False) rl, w')"
    using l by (cases rl) simp_all
  from get_workflow_logs_events [OF l] obtain evs
    where evs: "trace w' = trace w @ (?pre @ ?fin) @ Get (LogsUrl user repo run_id) # evs"
               "list_all log_event evs"
    by auto
  have new: "new_events w w' = (?pre @ ?fin) @ Get (LogsUrl user repo run_id) # evs"
    using evs(1) by (rule new_events_extend)
  show ?thesis
    using l run log_event_views [OF evs(2)]
    by (intro exI [of _ ?wl] exI [of _ rl] exI [of _ w'])
       (simp add: new replicate_append_same)
qed

text \<open>The example of the specification: five polls in progress, then run 7 failed.\<close>

theorem monitor_build_fails_witness:
  "pending (observe (server (failed_at 5) 4 (RunsUrl ''octocat'' ''app'')))
   \<and> observe (server (failed_at 5) 5 (RunsUrl ''octocat'' ''app''))
       = Seen (JStr ''completed'') (JStr ''failure'') (JInt 7)
   \<and> requests (new_events fresh (snd (monitor_build (failed_at 5) ''octocat'' ''app'' fresh)))
       = replicate 6 (RunsUrl ''octocat'' ''app'') @ [LogsUrl ''octocat'' ''app'' (JInt 7)]
   \<and> sleeps (new_events fresh (snd (monitor_build (failed_at 5) ''octocat'' ''app'' fresh)))
       = replicate 5 10"
proof -
  let ?url = "RunsUrl ''octocat'' ''app''"
  have h1: "(5::nat) < max_attempts"
    by (simp add: max_attempts_def)
  have h2: "\<forall>j<5. pending (observe (server (failed_at 5) (nreq fresh + j) ?url))"
    by (simp add: failed_at_def pending_build)
  have h3: "observe (server (failed_at 5) (nreq fresh + 5) ?url)
              = Seen (JStr ''completed'') (JStr ''failure'') (JInt 7)"
    by (simp add: failed_at_def observe_build)
  have h4: "JStr ''failure'' \<noteq> JStr ''success''"
    by simp
  from monitor_build_fails [OF h1 h2 h3 h4] obtain wl rl w'
    where g: "get_workflow_logs (failed_at 5) ''octocat'' ''app'' (JInt 7) wl = (rl, w')"
      and run: "monitor_build (failed_at 5) ''octocat'' ''app'' fresh
                  = (map_sum id (\<lambda>u. False) rl, w')"
      and r: "requests (new_events fresh w')
                = replicate (Suc 5) ?url @ [LogsUrl ''octocat'' ''app'' (JInt 7)]"
      and s: "sleeps (new_events fresh w') = replicate 5 10"
    by blast
  have "observe (server (failed_at 5) 5 ?url)
          = Seen (JStr ''completed'') (JStr ''failure'') (JInt 7)"
    by (simp add: failed_at_def observe_build)
  moreover have "replicate (Suc 5) ?url = replicate 6 ?url"
    by (simp add: eval_nat_numeral)
  ultimately show ?thesis
    using run r s by (simp add: failed_at_def pending_build)
qed

text \<open>
  Claim C2 as stated has no bound: a run that fails at the 61st poll is never seen. The
  monitor times out after 60 polls, requests no logs and does not report a failure.
\<close>

theorem monitor_build_fails_counterexample:
  "observe (server (failed_at 60) 59 (RunsUrl ''octocat'' ''app''))
     = Seen (JStr ''in_progress'') JNull (JInt 7)
   \<and> observe (server (failed_at 60) 60 (RunsUrl ''octocat'' ''app''))
       = Seen (JStr ''completed'') (JStr ''failure'') (JInt 7)
   \<and> log_requests (trace (snd (monitor_build (failed_at 60) ''octocat'' ''app'' fresh))) = []
   \<and> BuildFailed \<notin> set (lines (trace (snd (monitor_build (failed_at 60) ''octocat'' ''app'' fresh))))"
proof -
  let ?url = "RunsUrl ''octocat'' ''app''"
  have "\<forall>j<max_attempts. pending (observe (server (failed_at 60) (nreq fresh + j) ?url))"
    by (simp add: failed_at_def pending_build max_attempts_def)
  from monitor_build_timeout [OF this] show ?thesis
    by (auto simp: failed_at_def observe_build dest: lines_waited)
qed

text \<open>
  Claim C3. When none of the \<open>max_attempts\<close> (60) cycles raises or sees a completed run,
  \<open>monitor_build\<close> returns \<open>False\<close> with the timeout line as its last effect. Its
  requests are exactly 60 run-list requests, each cycle is followed by a sleep of 10, the
  files are untouched, and after \<open>k\<close> cycles the loop stands at \<open>attempt = k\<close>.
\<close>

theorem monitor_build_times_out:
  assumes "\<forall>j<max_attempts. pending (observe (server env (nreq w + j) (RunsUrl user repo)))"
  shows "\<exists>w'. monitor_build env user repo w = (Inr False, w')
           \<and> requests (new_events w w') = replicate max_attempts (RunsUrl user repo)
           \<and> sleeps (new_events w w') = replicate max_attempts 10
           \<and> last (new_events w w') = Print BuildTimeout
           \<and> nreq w' = nreq w + max_attempts
           \<and> files w' = files w
           \<and> (\<forall>k\<le>max_attempts.
                 monitor_build env user repo w =
                   monitor_loop env user repo k
                     (advance w (Print Monitoring # waited env (RunsUrl user repo) (nreq w) k) k))"
proof -
  let ?url = "RunsUrl user repo"
  let ?w' = "advance w (Print Monitoring # waited env ?url (nreq w) max_attempts
                        @ [Print BuildTimeout]) max_attempts"
  have run: "monitor_build env user repo w = (Inr False, ?w')"
    using assms by (rule monitor_build_timeout)
  have counter: "monitor_build env user repo w =
                   monitor_loop env user repo k (advance w (Print Monitoring # waited env ?url (nreq w) k) k)"
    if "k \<le> max_attempts" for k
  proof -
    let ?w0 = "advance w [Print Monitoring] 0"
    have "monitor_build env user repo w = monitor_loop env user repo 0 ?w0"
      by (rule monitor_build_loop)
    also have "\<dots> = monitor_loop env user repo (0 + k) (advance ?w0 (waited env ?url (nreq ?w0) k) k)"
      using assms that by (intro monitor_loop_waited) simp_all
    finally show ?thesis by simp
  qed
  show ?thesis
    using run counter by (intro exI [of _ ?w']) simp
qed

text \<open>A run that stays queued.\<close>

theorem monitor_build_times_out_witness:
  "pending (observe (server never_built 0 (RunsUrl ''octocat'' ''app'')))
   \<and> pending (observe (server never_built 59 (RunsUrl ''octocat'' ''app'')))
   \<and> fst (monitor_build never_built ''octocat'' ''app'' fresh) = Inr False
   \<and> requests (new_events fresh (snd (monitor_build never_built ''octocat'' ''app'' fresh)))
       = replicate 60 (RunsUrl ''octocat'' ''app'')
   \<and> sleeps (new_events fresh (snd (monitor_build never_built ''octocat'' ''app'' fresh)))
       = replicate 60 10
   \<and> last (new_events fresh (snd (monitor_build never_built ''octocat'' ''app'' fresh)))
       = Print BuildTimeout"
proof -
  let ?url = "RunsUrl ''octocat'' ''app''"
  have p: "pending (observe (server never_built k ?url))" for k
    by (simp add: never_built_def observe_queued pending_def)
  then have "\<forall>j<max_attempts. pending (observe (server never_built (nreq fresh + j) ?url))"
    by simp
  from monitor_build_times_out [OF this] obtain w'
    where "monitor_build never_built ''octocat'' ''app'' fresh = (Inr False, w')"
      and "requests (new_events fresh w') = replicate max_attempts ?url"
      and "sleeps (new_events fresh w') = replicate max_attempts 10"
      and "last (new_events fresh w') = Print BuildTimeout"
    by blast
  with p show ?thesis
    by (simp add: max_attempts_def)
qed

text \<open>
  Claim C5, as the code has it. On any status other than 200, \<open>get_workflow_runs\<close>
  raises nothing and returns the empty list: exactly what it returns, in the same world,
  for a 200 response that lists no runs. The caller cannot tell the two apart.
\<close>

theorem get_workflow_runs_not_200:
  assumes "server env (nreq w) (RunsUrl user repo) = Inr response"
      and "status_code response \<noteq> 200"
      and "server env' (nreq w) (RunsUrl user repo) = Inr response'"
      and "status_code response' = 200"
      and "json_body response' = Some body"
      and "getitem body ''workflow_runs'' = Inr (JList [])"
  shows "get_workflow_runs env user repo w
           = (Inr (JList []), advance w [Get (RunsUrl user repo)] 1)
         \<and> get_workflow_runs env' user repo w = get_workflow_runs env user repo w"
  using assms by (simp add: get_workflow_runs_eq runs_of_def response_json_def)

text \<open>A service answering 500 and a repository without runs.\<close>

theorem get_workflow_runs_not_200_witness:
  "server unavailable 0 (RunsUrl ''octocat'' ''app'') = http_status 500
   \<and> server no_runs_yet 0 (RunsUrl ''octocat'' ''app'') = run_list []
   \<and> get_workflow_runs unavailable ''octocat'' ''app'' fresh
       = (Inr (JList []), advance fresh [Get (RunsUrl ''octocat'' ''app'')] 1)
   \<and> get_workflow_runs no_runs_yet ''octocat'' ''app'' fresh
       = get_workflow_runs unavailable ''octocat'' ''app'' fresh"
  using get_workflow_runs_not_200 [of unavailable fresh "''octocat''" "''app''"
      "\<lparr>status_code = 500, json_body = None, content = NotZip\<rparr>" no_runs_yet
      "\<lparr>status_code = 200,
        json_body = Some (JObj [(''total_count'', JInt 0), (''workflow_runs'', JList [])]),
        content = NotZip\<rparr>"
      "JObj [(''total_count'', JInt 0), (''workflow_runs'', JList [])]"]
  by (simp add: unavailable_def no_runs_yet_def http_status_def run_list_def ok_json_def)

text \<open>
  Claim C5 as stated fails: the answer with status 500 is no error (\<open>Inl\<close>) but the
  empty list, as for the repository without runs.
\<close>

theorem get_workflow_runs_counterexample:
  "server unavailable 0 (RunsUrl ''octocat'' ''app'') = http_status 500
   \<and> fst (get_workflow_runs unavailable ''octocat'' ''app'' fresh) = Inr (JList [])
   \<and> fst (get_workflow_runs no_runs_yet ''octocat'' ''app'' fresh) = Inr (JList [])"
  by (simp add: get_workflow_runs_eq unavailable_def no_runs_yet_def runs_of_run_list
        runs_of_http_status)

text \<open>
  Claim C7, as the code has it. When the first \<open>k\<close> polls return the empty list and
  \<open>k\<close> is at most \<open>max_attempts\<close>, the run of \<open>monitor_build\<close> begins with \<open>k\<close> cycles of
  one request and one sleep each and no other effect, after which the loop stands at
  \<open>attempt = k\<close>. When \<open>k\<close> is below \<open>max_attempts\<close> the run goes on with the next poll;
  when \<open>k\<close> is \<open>max_attempts\<close> it ends there, with the timeout line and \<open>False\<close>.
\<close>

theorem empty_runs_keep_polling:
  assumes "\<forall>j<k. runs_of (server env (nreq w + j) (RunsUrl user repo)) = Inr (JList [])"
      and "k \<le> max_attempts"
  shows "monitor_build env user repo w =
           monitor_loop env user repo k
             (advance w (Print Monitoring
                         # concat (replicate k [Get (RunsUrl user repo), Sleep 10])) k)
         \<and> (\<exists>rest. trace (snd (monitor_build env user repo w))
                      = trace w @ Print Monitoring
                          # concat (replicate k [Get (RunsUrl user repo), Sleep 10]) @ rest
                    \<and> (k < max_attempts \<longrightarrow> (\<exists>tl. rest = Get (RunsUrl user repo) # tl))
                    \<and> (k = max_attempts \<longrightarrow> rest = [Print BuildTimeout]))
         \<and> (k = max_attempts \<longrightarrow> fst (monitor_build env user repo w) = Inr False)"
proof -
  let ?url = "RunsUrl user repo"
  let ?w0 = "advance w [Print Monitoring] 0"
  let ?idle = "concat (replicate k [Get ?url, Sleep 10])"
  let ?v = "advance w (Print Monitoring # ?idle) k"
  have none: "observe (server env (nreq w + j) ?url) = NoRuns" if "j < k" for j
    using assms(1) that by (simp add: observe_no_runs)
  have idle: "waited env ?url (nreq w) k = ?idle"
    using none by (intro waited_no_runs) simp
  have "monitor_build env user repo w = monitor_loop env user repo 0 ?w0"
    by (rule monitor_build_loop)
  also have "\<dots> = monitor_loop env user repo (0 + k) (advance ?w0 (waited env ?url (nreq ?w0) k) k)"
    using assms(2) none by (intro monitor_loop_waited) (simp_all add: pending_def)
  finally have loop: "monitor_build env user repo w = monitor_loop env user repo k ?v"
    by (simp add: idle)
  obtain r w' where m: "monitor_loop env user repo k ?v = (r, w')"
    by (cases "monitor_loop env user repo k ?v")
  have more: "\<exists>tl. trace w' = trace ?v @ Get ?url # tl" if "k < max_attempts"
    using that m by (rule monitor_loop_polls)
  have stop: "r = Inr False \<and> w' = advance ?v [Print BuildTimeout] 0" if "k = max_attempts"
    using that m by (simp add: monitor_loop_timeout)
  have "\<exists>rest. trace w' = trace w @ Print Monitoring # ?idle @ rest
                \<and> (k < max_attempts \<longrightarrow> (\<exists>tl. rest = Get ?url # tl))
                \<and> (k = max_attempts \<longrightarrow> rest = [Print BuildTimeout])"
  proof (cases "k < max_attempts")
    case True
    from more [OF this] obtain tl where "trace w' = trace ?v @ Get ?url # tl"
      by blast
    with True show ?thesis
      by (intro exI [of _ "Get ?url # tl"]) simp
  next
    case False
    with assms(2) have "k = max_attempts"
      by simp
    with stop show ?thesis
      by (intro exI [of _ "[Print BuildTimeout]"]) simp
  qed
  with loop m stop show ?thesis
    by simp
qed

text \<open>A repository without runs, three cycles: the fourth poll follows.\<close>

theorem empty_runs_keep_polling_witness:
  "runs_of (server no_runs_yet 2 (RunsUrl ''octocat'' ''app'')) = Inr (JList [])
   \<and> monitor_build no_runs_yet ''octocat'' ''app'' fresh =
       monitor_loop no_runs_yet ''octocat'' ''app'' 3
         (advance fresh (Print Monitoring
                         # concat (replicate 3 [Get (RunsUrl ''octocat'' ''app''), Sleep 10])) 3)
   \<and> (\<exists>tl. trace (snd (monitor_build no_runs_yet ''octocat'' ''app'' fresh))
              = Print Monitoring
                # concat (replicate 3 [Get (RunsUrl ''octocat'' ''app''), Sleep 10])
                @ Get (RunsUrl ''octocat'' ''app'') # tl)"
proof -
  let ?url = "RunsUrl ''octocat'' ''app''"
  have e: "runs_of (server no_runs_yet j ?url) = Inr (JList [])" for j
    by (simp add: no_runs_yet_def runs_of_run_list)
  then have h: "\<forall>j<3. runs_of (server no_runs_yet (nreq fresh + j) ?url) = Inr (JList [])"
    by simp
  have b: "(3::nat) \<le> max_attempts" "(3::nat) < max_attempts" "(3::nat) \<noteq> max_attempts"
    by (simp_all add: max_attempts_def)
  from empty_runs_keep_polling [OF h b(1)] e [of 2] b(2,3) show ?thesis
    by auto
qed

text \<open>
  Claim C7 as stated fails beyond \<open>max_attempts\<close>: with the empty list for each of the
  first 61 polls, the monitor has left its loop after 60 cycles, printed the timeout
  line and returned \<open>False\<close>.
\<close>

theorem empty_runs_keep_polling_counterexample:
  "list_all (\<lambda>j. runs_of (server no_runs_yet j (RunsUrl ''octocat'' ''app'')) = Inr (JList []))
     [0..<61]
   \<and> monitor_build no_runs_yet ''octocat'' ''app'' fresh
       = (Inr False,
          advance fresh (Print Monitoring
                         # concat (replicate 60 [Get (RunsUrl ''octocat'' ''app''), Sleep 10])
                         @ [Print BuildTimeout]) 60)"
proof -
  let ?url = "RunsUrl ''octocat'' ''app''"
  have e: "runs_of (server no_runs_yet j ?url) = Inr (JList [])" for j
    by (simp add: no_runs_yet_def runs_of_run_list)
  have o: "observe (server no_runs_yet j ?url) = NoRuns" for j
    by (rule observe_no_runs) (rule e)
  have p: "\<forall>j<max_attempts. pending (observe (server no_runs_yet (nreq fresh + j) ?url))"
    by (simp add: o pending_def)
  have i: "waited no_runs_yet ?url (nreq fresh) max_attempts
             = concat (replicate max_attempts [Get ?url, Sleep 10])"
    by (intro waited_no_runs) (simp add: o)
  have "list_all (\<lambda>j. runs_of (server no_runs_yet j ?url) = Inr (JList [])) [0..<61]"
    by (simp only: e list_all_iff) simp
  with monitor_build_timeout [OF p] i show ?thesis
    by (simp add: max_attempts_def)
qed

text \<open>
  Claim C8, as the code has it. A cycle whose first-listed run has a status other than
  \<open>completed\<close> and carries the keys \<open>conclusion\<close> (whatever its value, \<open>None\<close>
  included) and \<open>id\<close> prints the status and falls through to the sleep: the monitor
  stays in Polling.
\<close>

theorem unfinished_run_keeps_polling:
  assumes "runs_of (server env (nreq w) (RunsUrl user repo)) = Inr (JList (run # rest))"
      and "getitem run ''status'' = Inr status"
      and "status \<noteq> JStr ''completed''"
      and "getitem run ''conclusion'' = Inr conclusion"
      and "getitem run ''id'' = Inr run_id"
  shows "poll_cycle env user repo w
           = (Inr Continue,
              advance w [Get (RunsUrl user repo), Print (BuildStatus status conclusion)] 1)
         \<and> (\<forall>attempt<max_attempts.
               monitor_loop env user repo attempt w =
                 monitor_loop env user repo (Suc attempt)
                   (advance w [Get (RunsUrl user repo), Print (BuildStatus status conclusion),
                               Sleep 10] 1))"
proof -
  have obs: "observe (server env (nreq w) (RunsUrl user repo)) = Seen status conclusion run_id"
    using assms by (simp add: observe_def)
  then have "pending (observe (server env (nreq w) (RunsUrl user repo)))"
    using assms(3) by (simp add: pending_def)
  from monitor_loop_step [OF _ this] obs show ?thesis
    using assms(3) by (simp add: poll_cycle_eq cycle_events_def status_line_def)
qed

text \<open>A queued run whose conclusion is null.\<close>

theorem unfinished_run_keeps_polling_witness:
  "runs_of (server never_built 0 (RunsUrl ''octocat'' ''app''))
     = Inr (JList [run_json 42 ''queued'' JNull])
   \<and> getitem (run_json 42 ''queued'' JNull) ''conclusion'' = Inr JNull
   \<and> poll_cycle never_built ''octocat'' ''app'' fresh
       = (Inr Continue,
          advance fresh [Get (RunsUrl ''octocat'' ''app''),
                         Print (BuildStatus (JStr ''queued'') JNull)] 1)"
  using unfinished_run_keeps_polling [of never_built fresh "''octocat''" "''app''"
      "run_json 42 ''queued'' JNull" "[]" "JStr ''queued''" JNull "JInt 42"]
  by (simp add: never_built_def runs_of_run_list run_json_def)

text \<open>
  Claim C8 as stated fails for a run without the key \<open>conclusion\<close>:
  \<open>latest_run['conclusion']\<close> is read before the status is looked at, and the KeyError
  leaves \<open>monitor_build\<close>.
\<close>

theorem unfinished_run_counterexample:
  "runs_of (server bare_run 0 (RunsUrl ''octocat'' ''app''))
     = Inr (JList [JObj [(''id'', JInt 7), (''status'', JStr ''in_progress'')]])
   \<and> fst (poll_cycle bare_run ''octocat'' ''app'' fresh) = Inl KeyError
   \<and> fst (monitor_build bare_run ''octocat'' ''app'' fresh) = Inl KeyError"
proof -
  have o: "observe (server bare_run n (RunsUrl ''octocat'' ''app'')) = Raised KeyError" for n
    by (simp add: bare_run_def run_list_def ok_json_def observe_def runs_of_def
          response_json_def)
  have "fst (monitor_loop bare_run ''octocat'' ''app'' 0 (advance fresh [Print Monitoring] 0))
          = Inl KeyError"
    by (subst monitor_loop.simps) (simp add: poll_cycle_eq o max_attempts_def)
  moreover have "runs_of (server bare_run 0 (RunsUrl ''octocat'' ''app''))
                   = Inr (JList [JObj [(''id'', JInt 7), (''status'', JStr ''in_progress'')]])"
    by (simp add: bare_run_def runs_of_run_list)
  moreover have "fst (poll_cycle bare_run ''octocat'' ''app'' fresh) = Inl KeyError"
    by (simp add: poll_cycle_eq o)
  ultimately show ?thesis
    by (simp add: monitor_build_loop)
qed







text \<open>
  Claim C10. After an extraction that succeeds, \<open>download_apk\<close> returns \<open>True\<close> exactly
  when some regular file whose name ends in \<open>.apk\<close> is under the current directory:
  a file that was there before or a file member of the archive.
\<close>

theorem download_apk_finds_any_apk:
  assumes "serves_archive env user repo run_id w (Zip ms)"
      and "fst (extracted ms (files w)) = None"
  shows "fst (download_apk env user repo run_id w)
           = Inr (\<exists>p \<in> set (map fst (files w)) \<union> set (member_paths ms).
                    endswith (snd p) ''.apk'')
         \<and> files (snd (download_apk env user repo run_id w)) = snd (extracted ms (files w))"
proof -
  obtain fs where ex: "extracted ms (files w) = (None, fs)"
    using assms(2) by (cases "extracted ms (files w)") simp
  have "set (map fst fs) = set (map fst (files w)) \<union> set (member_paths ms)"
    using extracted_paths [OF assms(2)] ex by simp
  then have "list_ex (\<lambda>f. endswith (snd (fst f)) ''.apk'') fs
               \<longleftrightarrow> (\<exists>p \<in> set (map fst (files w)) \<union> set (member_paths ms).
                      endswith (snd p) ''.apk'')"
    by (simp only: list_ex_paths [of "\<lambda>p. endswith (snd p) ''.apk''"])
  then show ?thesis
    using download_apk_served(1,2) [OF assms(1)] ex by simp
qed

text \<open>An archive without an APK, extracted where an old APK lies and where none does.\<close>

theorem download_apk_finds_any_apk_witness:
  "serves_archive built_no_apk ''octocat'' ''app'' (JInt 42) stale
     (Zip [ZEntry ''output-metadata.json'' (Whole ''{}'')])
   \<and> fst (download_apk built_no_apk ''octocat'' ''app'' (JInt 42) stale) = Inr True
   \<and> fst (download_apk built_no_apk ''octocat'' ''app'' (JInt 42) fresh) = Inr False
   \<and> files (snd (download_apk built_no_apk ''octocat'' ''app'' (JInt 42) stale))
       = [(([''old''], ''stale.apk''), ''PK''), (([], ''output-metadata.json''), ''{}'')]"
proof -
  let ?ms = "[ZEntry ''output-metadata.json'' (Whole ''{}'')]"
  have s: "serves_archive built_no_apk ''octocat'' ''app'' (JInt 42) w (Zip ?ms)" for w
    by (simp add: serves_archive_def built_no_apk_def artifact_list_def ok_json_def ok_zip_def
          response_json_def)
  have e: "fst (extracted ?ms (files w)) = None" for w
    by (simp add: extracted_def getinfo_def is_dir_def endswith_def suffix_to_prefix
          target_of_def)
  have a: "endswith ''stale.apk'' ''.apk''" "\<not> endswith ''output-metadata.json'' ''.apk''"
    by (simp_all add: endswith_def suffix_to_prefix)
  have m: "member_paths ?ms = [([], ''output-metadata.json'')]"
    by code_simp
  have x: "extracted ?ms [(([''old''], ''stale.apk''), ''PK'')]
             = (None, [(([''old''], ''stale.apk''), ''PK''),
                       (([], ''output-metadata.json''), ''{}'')])"
    by code_simp
  have f: "files stale = [(([''old''], ''stale.apk''), ''PK'')]" "files fresh = []"
    by (simp_all add: stale_def fresh_def)
  from download_apk_finds_any_apk [OF s e, of stale]
       download_apk_finds_any_apk [OF s e, of fresh] s [of stale] a
  show ?thesis
    by (simp add: f m x)
qed

text \<open>
  Claim C4, as the code has it. The caller of \<open>monitor_build\<close> gets a boolean. What
  tells the outcomes apart is printed: a run that returns \<open>True\<close> has printed the line
  of a completed build and neither the line of a failed build nor the timeout line; a
  run that returns \<open>False\<close> has printed exactly one of the latter two and not the first.
\<close>

theorem monitor_build_reports:
  assumes "monitor_build env user repo w = (r, w')"
  shows "told_apart r (lines (new_events w w'))"
proof -
  from assms have "monitor_loop env user repo 0 (advance w [Print Monitoring] 0) = (r, w')"
    by (simp add: monitor_build_loop)
  from monitor_loop_told_apart [OF this] obtain evs
    where "trace w' = trace w @ Print Monitoring # evs" "told_apart r (lines evs)"
    by auto
  then show ?thesis
    using told_apart_quiet [of "[Monitoring]" r "lines evs"]
    by (simp add: new_events_def)
qed

text \<open>A successful build whose artifact list is refused with status 404.\<close>

theorem monitor_build_reports_witness:
  "fst (monitor_build built_without_artifact ''octocat'' ''app'' fresh) = Inr True
   \<and> BuildCompleted
       \<in> set (lines (new_events fresh (snd (monitor_build built_without_artifact ''octocat'' ''app'' fresh))))
   \<and> BuildFailed
       \<notin> set (lines (new_events fresh (snd (monitor_build built_without_artifact ''octocat'' ''app'' fresh))))
   \<and> BuildTimeout
       \<notin> set (lines (new_events fresh (snd (monitor_build built_without_artifact ''octocat'' ''app'' fresh))))"
proof -
  have "fst (monitor_build built_without_artifact ''octocat'' ''app'' fresh) = Inr True"
    by code_simp
  with monitor_build_reports [OF prod.collapse [symmetric],
      of built_without_artifact "''octocat''" "''app''" fresh]
  show ?thesis
    by (simp add: told_apart_def)
qed

text \<open>
  Claim C4 as stated fails: four outcomes, two results. A successful build returns
  \<open>True\<close> whether the APK was extracted or the artifacts could not be listed; a failed
  build and a timeout both return \<open>False\<close>.
\<close>

theorem monitor_build_reports_counterexample:
  "fst (monitor_build (built_at 0) ''octocat'' ''app'' fresh) = Inr True
   \<and> ApkReady \<in> set (lines (trace (snd (monitor_build (built_at 0) ''octocat'' ''app'' fresh))))
   \<and> fst (monitor_build built_without_artifact ''octocat'' ''app'' fresh) = Inr True
   \<and> FailedGetArtifacts
       \<in> set (lines (trace (snd (monitor_build built_without_artifact ''octocat'' ''app'' fresh))))
   \<and> fst (monitor_build (failed_at 0) ''octocat'' ''app'' fresh) = Inr False
   \<and> BuildFailed \<in> set (lines (trace (snd (monitor_build (failed_at 0) ''octocat'' ''app'' fresh))))
   \<and> fst (monitor_build no_runs_yet ''octocat'' ''app'' fresh) = Inr False
   \<and> last (trace (snd (monitor_build no_runs_yet ''octocat'' ''app'' fresh))) = Print BuildTimeout"
proof -
  have a: "fst (monitor_build (built_at 0) ''octocat'' ''app'' fresh) = Inr True
           \<and> ApkReady \<in> set (lines (trace (snd (monitor_build (built_at 0) ''octocat'' ''app'' fresh))))"
    by code_simp
  have b: "fst (monitor_build built_without_artifact ''octocat'' ''app'' fresh) = Inr True
           \<and> FailedGetArtifacts
               \<in> set (lines (trace (snd (monitor_build built_without_artifact ''octocat'' ''app'' fresh))))"
    by code_simp
  have c: "fst (monitor_build (failed_at 0) ''octocat'' ''app'' fresh) = Inr False
           \<and> BuildFailed \<in> set (lines (trace (snd (monitor_build (failed_at 0) ''octocat'' ''app'' fresh))))"
    by code_simp
  have "\<forall>j<max_attempts.
          pending (observe (server no_runs_yet (nreq fresh + j) (RunsUrl ''octocat'' ''app'')))"
    by (simp add: no_runs_yet_def observe_no_runs runs_of_run_list pending_def)
  from monitor_build_timeout [OF this]
  have d: "fst (monitor_build no_runs_yet ''octocat'' ''app'' fresh) = Inr False
           \<and> last (trace (snd (monitor_build no_runs_yet ''octocat'' ''app'' fresh))) = Print BuildTimeout"
    by simp
  from a b c d show ?thesis
    by simp
qed

end
